theory Spec2Isabelle
  imports Complex_Main "HOL-Library.Countable" "HOL-Library.Char_ord" "HOL-Library.List_Lexorder"
    "HOL-Library.Word"
begin

section \<open>Strings\<close>

text \<open>
  A JavaScript string is the sequence of its UTF-16 code units: this is what \<^verbatim>\<open>===\<close>
  compares, what IndexedDB orders keys by, and what \<^verbatim>\<open>trim\<close> looks at. \<open>str\<close> gives the
  string of a literal whose characters are below U+0100. The names of properties and of
  localStorage keys, the texts shown to the user and the stored payloads, which the code
  only passes on, stay plain texts (a character outside ASCII in its UTF-8 bytes).
\<close>

type_synonym jsstring = "16 word list"

definition str :: "string \<Rightarrow> jsstring" where
  "str s = map of_char s"

section \<open>Data model\<close>

text \<open>
  The three record kinds of the order page (\<^verbatim>\<open>interface Flavor\<close>, \<^verbatim>\<open>interface Client\<close>,
  \<^verbatim>\<open>interface Order\<close>). A JavaScript \<^verbatim>\<open>number\<close> that the store only copies is a rational;
  an optional field (\<^verbatim>\<open>clientId?: string\<close>) is an \<open>option\<close>, \<open>None\<close> being
  \<^verbatim>\<open>undefined\<close>. The fields \<^verbatim>\<open>id\<close>, \<^verbatim>\<open>name\<close> and \<^verbatim>\<open>type\<close> carry the record's name as a
  suffix where two records share them or HOL already uses the name.
\<close>

record Flavor =
  name :: jsstring
  pricePerKg :: rat

record Client =
  id_client :: jsstring
  name_client :: jsstring
  phone :: jsstring

datatype OrderStatus = pending | confirmed | delivered | canceled

datatype OrderType = ready | custom

record Order =
  id_order :: jsstring
  type_order :: OrderType
  sizeKg :: rat
  flavorName :: jsstring
  doughColor :: jsstring
  price :: rat
  clientId :: "jsstring option"
  clientName :: "jsstring option"
  clientPhone :: "jsstring option"
  deliveryDate :: "jsstring option"
  status :: OrderStatus
  createdAt :: jsstring
  notes_order :: "jsstring option"
  decorated :: "bool option"
  decoratedSurcharge :: "rat option"

datatype StoreName = flavors | clients | orders

text \<open>
  \<^verbatim>\<open>StoreMap[K]\<close>: a stored value is one of the three record shapes. The generic functions of
  the source take \<^verbatim>\<open>StoreMap[K]\<close> for a store \<^verbatim>\<open>K\<close>; \<open>fits\<close> says that a value has the
  shape its store declares.
\<close>

datatype item = FlavorItem Flavor | ClientItem Client | OrderItem Order

fun fits :: "StoreName \<Rightarrow> item \<Rightarrow> bool" where
  "fits flavors (FlavorItem f) = True"
| "fits clients (ClientItem c) = True"
| "fits orders (OrderItem ord) = True"
| "fits s i = False"

text \<open>
  Reading a string property of a stored object: \<^verbatim>\<open>x.name\<close> and \<^verbatim>\<open>x.id\<close>. An object
  without the property yields \<^verbatim>\<open>undefined\<close>, here \<open>None\<close>.
\<close>

fun getProp :: "string \<Rightarrow> item \<Rightarrow> jsstring option" where
  "getProp p (FlavorItem f) = (if p = ''name'' then Some (name f) else None)"
| "getProp p (ClientItem c) =
     (if p = ''id'' then Some (id_client c)
      else if p = ''name'' then Some (name_client c) else None)"
| "getProp p (OrderItem ord) = (if p = ''id'' then Some (id_order ord) else None)"

section \<open>The execution context\<close>

datatype error =
    IDBUnsupported
  | OpenFailed
  | ReadFailed
  | TransactionFailed
  | DataError

text \<open>
  The message \<^verbatim>\<open>{ type: 'orders_changed', id }\<close> of the broadcast channel; the id is
  \<open>None\<close> where the value read has no \<^verbatim>\<open>id\<close>.
\<close>

datatype message = orders_changed "jsstring option"

text \<open>What \<^verbatim>\<open>JSON.parse\<close> returns, as far as the code looks at it (\<^verbatim>\<open>Array.isArray\<close>).\<close>

datatype parsed = JArray "item list" | JOther

text \<open>
  Everything an operation can read or change in one execution context: the feature
  detection (\<^verbatim>\<open>typeof window\<close>, \<^verbatim>\<open>window.indexedDB\<close>), \<^verbatim>\<open>window.localStorage\<close> as a map from
  key to raw text, the platform's \<^verbatim>\<open>JSON.parse\<close> (\<open>None\<close> when it throws) and
  \<^verbatim>\<open>JSON.stringify\<close>, the module variable \<^verbatim>\<open>dbPromise\<close>, the object stores of the database
  \<^verbatim>\<open>cakeDB\<close> (records in key order), the faults the engine may raise, and the broadcast
  channel \<^verbatim>\<open>cake_sync\<close> with the messages posted so far.
\<close>

record env =
  isBrowser :: bool
  indexedDBDefined :: bool
  localStorage :: "string \<rightharpoonup> string"
  JSON_parse :: "string \<Rightarrow> parsed option"
  JSON_stringify :: "item list \<Rightarrow> string"
  dbPromise :: "(error + unit) option"
  idbOpenFails :: bool
  idbReadFails :: bool
  idbTxFails :: bool
  idbStores :: "StoreName \<Rightarrow> item list"
  bcSupported :: bool
  bcThrows :: bool
  bcPosted :: "message list"

definition hasIndexedDB :: "env \<Rightarrow> bool" where
  "hasIndexedDB e \<longleftrightarrow> isBrowser e \<and> indexedDBDefined e"

text \<open>
  \<^verbatim>\<open>localStorage.setItem\<close> and \<^verbatim>\<open>localStorage.removeItem\<close>. The storage is taken
  without quota, so neither throws.
\<close>

definition setItem :: "string \<Rightarrow> string \<Rightarrow> env \<Rightarrow> env" where
  "setItem k v e = e\<lparr>localStorage := (localStorage e)(k \<mapsto> v)\<rparr>"

definition removeItem :: "string \<Rightarrow> env \<Rightarrow> env" where
  "removeItem k e = e\<lparr>localStorage := (localStorage e)(k := None)\<rparr>"

text \<open>
  The law of the platform's serialiser that the flat backend relies on: a collection
  written with \<^verbatim>\<open>JSON.stringify\<close> is a non-empty text that \<^verbatim>\<open>JSON.parse\<close> reads back as
  the same array.
\<close>

definition json_roundtrip :: "env \<Rightarrow> bool" where
  "json_roundtrip e \<longleftrightarrow>
     (\<forall>xs. JSON_stringify e xs \<noteq> [] \<and> JSON_parse e (JSON_stringify e xs) = Some (JArray xs))"

section \<open>Flat backend (localStorage)\<close>

fun lsKeys :: "StoreName \<Rightarrow> string" where
  "lsKeys flavors = ''cakeFlavors''"
| "lsKeys clients = ''cakeClients''"
| "lsKeys orders = ''cakeOrders''"

definition getKeyValue :: "StoreName \<Rightarrow> item \<Rightarrow> jsstring option" where
  "getKeyValue store i =
     (if store = flavors then getProp ''name'' i
      else if store = clients then getProp ''id'' i
      else getProp ''id'' i)"

definition readFromLocalStorage :: "env \<Rightarrow> StoreName \<Rightarrow> item list" where
  "readFromLocalStorage e store =
     (if \<not> isBrowser e then []
      else case localStorage e (lsKeys store) of
             None \<Rightarrow> []
           | Some raw \<Rightarrow>
               if raw = [] then []
               else (case JSON_parse e raw of
                       None \<Rightarrow> []
                     | Some (JArray xs) \<Rightarrow> xs
                     | Some JOther \<Rightarrow> []))"

text \<open>\<^verbatim>\<open>current.findIndex(pred)\<close>: the first index whose element satisfies \<open>pred\<close>, or \<open>None\<close> for -1.\<close>

fun findIndex :: "('a \<Rightarrow> bool) \<Rightarrow> 'a list \<Rightarrow> nat option" where
  "findIndex P [] = None"
| "findIndex P (x # xs) =
     (if P x then Some 0 else map_option Suc (findIndex P xs))"

text \<open>The in-memory step of \<^verbatim>\<open>storage.put\<close>: \<^verbatim>\<open>current[idx] = value\<close> or \<^verbatim>\<open>current.push(value)\<close>.\<close>

definition put_current :: "StoreName \<Rightarrow> item \<Rightarrow> item list \<Rightarrow> item list" where
  "put_current store v current =
     (case findIndex (\<lambda>x. getKeyValue store x = getKeyValue store v) current of
        Some idx \<Rightarrow> current[idx := v]
      | None \<Rightarrow> current @ [v])"

text \<open>The in-memory step of \<^verbatim>\<open>storage.delete\<close>: \<^verbatim>\<open>current.filter(x => key(x) !== key)\<close>.\<close>

definition delete_current :: "StoreName \<Rightarrow> jsstring \<Rightarrow> item list \<Rightarrow> item list" where
  "delete_current store k current = filter (\<lambda>x. getKeyValue store x \<noteq> Some k) current"

section \<open>Structured backend (IndexedDB)\<close>

text \<open>
  \<^verbatim>\<open>getDB\<close>: throws where IndexedDB is missing, otherwise opens \<^verbatim>\<open>cakeDB\<close> once and keeps the
  promise in \<^verbatim>\<open>dbPromise\<close>, also when the open request failed.
\<close>

definition getDB :: "env \<Rightarrow> (error + unit) \<times> env" where
  "getDB e =
     (if \<not> hasIndexedDB e then (Inl IDBUnsupported, e)
      else case dbPromise e of
             Some r \<Rightarrow> (r, e)
           | None \<Rightarrow>
               (let r = (if idbOpenFails e then Inl OpenFailed else Inr ())
                in (r, e\<lparr>dbPromise := Some r\<rparr>)))"

text \<open>The \<^verbatim>\<open>keyPath\<close> each object store is created with in \<^verbatim>\<open>onupgradeneeded\<close>.\<close>

fun keyPath :: "StoreName \<Rightarrow> string" where
  "keyPath flavors = ''name''"
| "keyPath clients = ''id''"
| "keyPath orders = ''id''"

text \<open>
  The engine's object store, as the records in ascending key order. \<^verbatim>\<open>store.put(v)\<close> throws
  a \<^verbatim>\<open>DataError\<close> for a value without a key at the key path, replaces the record with the
  same key, and inserts a new key at its place in the order; \<^verbatim>\<open>store.delete(key)\<close> removes
  the record with that key, if any.
\<close>

fun os_insert :: "string \<Rightarrow> jsstring \<Rightarrow> item \<Rightarrow> item list \<Rightarrow> item list" where
  "os_insert p k v [] = [v]"
| "os_insert p k v (x # xs) =
     (if getProp p x = Some k then v # xs
      else if (case getProp p x of Some kx \<Rightarrow> k < kx | None \<Rightarrow> False) then v # x # xs
      else x # os_insert p k v xs)"

definition os_put :: "StoreName \<Rightarrow> item \<Rightarrow> item list \<Rightarrow> error + item list" where
  "os_put store v xs =
     (case getProp (keyPath store) v of
        None \<Rightarrow> Inl DataError
      | Some k \<Rightarrow> Inr (os_insert (keyPath store) k v xs))"

definition os_delete :: "StoreName \<Rightarrow> jsstring \<Rightarrow> item list \<Rightarrow> item list" where
  "os_delete store k xs = filter (\<lambda>x. getProp (keyPath store) x \<noteq> Some k) xs"

definition idbGetAll :: "env \<Rightarrow> StoreName \<Rightarrow> (error + item list) \<times> env" where
  "idbGetAll e storeName =
     (case getDB e of
        (Inl err, e') \<Rightarrow> (Inl err, e')
      | (Inr db, e') \<Rightarrow>
          if idbReadFails e' then (Inl ReadFailed, e')
          else (Inr (idbStores e' storeName), e'))"

definition idbPut :: "env \<Rightarrow> StoreName \<Rightarrow> item \<Rightarrow> (error + unit) \<times> env" where
  "idbPut e storeName v =
     (case getDB e of
        (Inl err, e') \<Rightarrow> (Inl err, e')
      | (Inr db, e') \<Rightarrow>
          (case os_put storeName v (idbStores e' storeName) of
             Inl err \<Rightarrow> (Inl err, e')
           | Inr xs \<Rightarrow>
               if idbTxFails e' then (Inl TransactionFailed, e')
               else (Inr (), e'\<lparr>idbStores := (idbStores e')(storeName := xs)\<rparr>)))"

text \<open>
  The loop \<^verbatim>\<open>for (const v of values) store.put(v)\<close> of \<^verbatim>\<open>idbBulkPut\<close>: the puts made before
  one throws stay requested in the transaction.
\<close>

fun put_each :: "StoreName \<Rightarrow> item list \<Rightarrow> item list \<Rightarrow> error option \<times> item list" where
  "put_each store [] xs = (None, xs)"
| "put_each store (v # vs) xs =
     (case os_put store v xs of
        Inl err \<Rightarrow> (Some err, xs)
      | Inr xs' \<Rightarrow> put_each store vs xs')"

definition idbBulkPut :: "env \<Rightarrow> StoreName \<Rightarrow> item list \<Rightarrow> (error + unit) \<times> env" where
  "idbBulkPut e storeName vs =
     (case getDB e of
        (Inl err, e') \<Rightarrow> (Inl err, e')
      | (Inr db, e') \<Rightarrow>
          (case put_each storeName vs (idbStores e' storeName) of
             (thrown, xs) \<Rightarrow>
               if idbTxFails e'
               then (Inl (case thrown of Some err \<Rightarrow> err | None \<Rightarrow> TransactionFailed), e')
               else (case thrown of Some err \<Rightarrow> Inl err | None \<Rightarrow> Inr (),
                     e'\<lparr>idbStores := (idbStores e')(storeName := xs)\<rparr>)))"

definition idbDelete :: "env \<Rightarrow> StoreName \<Rightarrow> jsstring \<Rightarrow> (error + unit) \<times> env" where
  "idbDelete e storeName k =
     (case getDB e of
        (Inl err, e') \<Rightarrow> (Inl err, e')
      | (Inr db, e') \<Rightarrow>
          if idbTxFails e' then (Inl TransactionFailed, e')
          else (Inr (),
                e'\<lparr>idbStores := (idbStores e')(storeName := os_delete storeName k (idbStores e' storeName))\<rparr>))"

section \<open>The storage adapter\<close>

text \<open>The four operations of the object \<^verbatim>\<open>storage\<close> of the order page.\<close>

definition storage_getAll :: "env \<Rightarrow> StoreName \<Rightarrow> (error + item list) \<times> env" where
  "storage_getAll e store =
     (if hasIndexedDB e then idbGetAll e store
      else (Inr (readFromLocalStorage e store), e))"

definition storage_bulkPut :: "env \<Rightarrow> StoreName \<Rightarrow> item list \<Rightarrow> (error + unit) \<times> env" where
  "storage_bulkPut e store vs =
     (if hasIndexedDB e then idbBulkPut e store vs
      else if \<not> isBrowser e then (Inr (), e)
      else (Inr (), setItem (lsKeys store) (JSON_stringify e vs) e))"

definition storage_put :: "env \<Rightarrow> StoreName \<Rightarrow> item \<Rightarrow> (error + unit) \<times> env" where
  "storage_put e store v =
     (if hasIndexedDB e then idbPut e store v
      else if \<not> isBrowser e then (Inr (), e)
      else (let current = readFromLocalStorage e store
            in (Inr (), setItem (lsKeys store) (JSON_stringify e (put_current store v current)) e)))"

definition storage_delete :: "env \<Rightarrow> StoreName \<Rightarrow> jsstring \<Rightarrow> (error + unit) \<times> env" where
  "storage_delete e store k =
     (if hasIndexedDB e then idbDelete e store k
      else if \<not> isBrowser e then (Inr (), e)
      else (let current = readFromLocalStorage e store;
                next = delete_current store k current
            in (Inr (), setItem (lsKeys store) (JSON_stringify e next) e)))"

section \<open>Change notification\<close>

text \<open>
  \<^verbatim>\<open>new BroadcastChannel('cake_sync'); bc.postMessage(m); bc.close()\<close>: the message joins
  the posted ones unless the channel throws.
\<close>

datatype bc_error = ChannelError

definition postMessage :: "message \<Rightarrow> env \<Rightarrow> bc_error + env" where
  "postMessage m e = (if bcThrows e then Inl ChannelError else Inr (e\<lparr>bcPosted := bcPosted e @ [m]\<rparr>))"

text \<open>
  The block \<^verbatim>\<open>try { if (... 'BroadcastChannel' in window) { ... } } catch { /* ignore */ }\<close>,
  with \<open>guard\<close> the condition of its \<^verbatim>\<open>if\<close>.
\<close>

definition try_publish :: "bool \<Rightarrow> message \<Rightarrow> env \<Rightarrow> env" where
  "try_publish guard m e =
     (if guard then (case postMessage m e of Inl err \<Rightarrow> e | Inr e' \<Rightarrow> e') else e)"

section \<open>The order page\<close>

datatype toast = toast_success | toast_error

record home_view =
  flavors_state :: "item list"
  clients_state :: "item list"
  message :: "(toast \<times> string) option"
  saving :: bool
  initializing :: bool

definition DECORATED_SURCHARGE :: rat where
  "DECORATED_SURCHARGE = 60"

definition defaultFlavors :: "item list" where
  "defaultFlavors =
     [FlavorItem \<lparr>name = str ''Chocolate'', pricePerKg = 50\<rparr>,
      FlavorItem \<lparr>name = str ''Baunilha'', pricePerKg = 45\<rparr>,
      FlavorItem \<lparr>name = str ''Morango'', pricePerKg = 55\<rparr>,
      FlavorItem \<lparr>name = str ''Lim'' @ [0xE3] @ str ''o'', pricePerKg = 40\<rparr>]"

text \<open>
  The block \<^verbatim>\<open>// Migra do localStorage para IDB, se necessario\<close> of \<^verbatim>\<open>init\<close>, which the source
  writes once for the flavors and once for the clients: \<open>stored\<close> is what \<^verbatim>\<open>getAll\<close> gave,
  the result is the new value of that variable. A rejected \<^verbatim>\<open>bulkPut\<close> and a throwing
  \<^verbatim>\<open>JSON.parse\<close> are caught by the block's own \<^verbatim>\<open>catch\<close>, which skips \<^verbatim>\<open>removeItem\<close>.
\<close>

definition migrate :: "env \<Rightarrow> StoreName \<Rightarrow> item list \<Rightarrow> item list \<times> env" where
  "migrate e store stored =
     (if hasIndexedDB e \<and> stored = [] then
        (case localStorage e (lsKeys store) of
           None \<Rightarrow> (stored, e)
         | Some localRaw \<Rightarrow>
             if localRaw = [] then (stored, e)
             else (case JSON_parse e localRaw of
                     None \<Rightarrow> (stored, e)
                   | Some (JArray vs) \<Rightarrow>
                       if vs \<noteq> [] then
                         (case storage_bulkPut e store vs of
                            (Inl err, e') \<Rightarrow> (stored, e')
                          | (Inr u, e') \<Rightarrow> (vs, removeItem (lsKeys store) e'))
                       else (stored, removeItem (lsKeys store) e)
                   | Some JOther \<Rightarrow> (stored, removeItem (lsKeys store) e)))
      else (stored, e))"

text \<open>The paragraph \<^verbatim>\<open>// Carrega sabores\<close>: read, migrate, install the default flavors.\<close>

definition load_flavors :: "env \<Rightarrow> (error + item list) \<times> env" where
  "load_flavors e =
     (case storage_getAll e flavors of
        (Inl err, e1) \<Rightarrow> (Inl err, e1)
      | (Inr storedFlavors, e1) \<Rightarrow>
          (case migrate e1 flavors storedFlavors of
             (storedFlavors', e2) \<Rightarrow>
               if storedFlavors' = [] then
                 (case storage_bulkPut e2 flavors defaultFlavors of
                    (Inl err, e3) \<Rightarrow> (Inl err, e3)
                  | (Inr u, e3) \<Rightarrow> (Inr defaultFlavors, e3))
               else (Inr storedFlavors', e2)))"

text \<open>The paragraph \<^verbatim>\<open>// Carrega clientes\<close>: read and migrate.\<close>

definition load_clients :: "env \<Rightarrow> (error + item list) \<times> env" where
  "load_clients e =
     (case storage_getAll e clients of
        (Inl err, e1) \<Rightarrow> (Inl err, e1)
      | (Inr storedClients, e1) \<Rightarrow>
          (case migrate e1 clients storedClients of
             (storedClients', e2) \<Rightarrow> (Inr storedClients', e2)))"

text \<open>
  \<^verbatim>\<open>init\<close>, with its \<^verbatim>\<open>try\<close>, \<^verbatim>\<open>catch\<close> and \<^verbatim>\<open>finally\<close>; \<open>ignore\<close> is the flag the effect's
  cleanup sets.
\<close>

definition init :: "env \<Rightarrow> bool \<Rightarrow> home_view \<Rightarrow> home_view \<times> env" where
  "init e ignore v =
     (let failed = (\<lambda>w. if \<not> ignore
                         then w\<lparr>message := Some (toast_error, ''Falha ao carregar dados locais.'')\<rparr>
                         else w);
          finally = (\<lambda>w. if \<not> ignore then w\<lparr>initializing := False\<rparr> else w)
      in case load_flavors e of
           (Inl err, e1) \<Rightarrow> (finally (failed v), e1)
         | (Inr storedFlavors, e1) \<Rightarrow>
             (let v1 = (if \<not> ignore then v\<lparr>flavors_state := storedFlavors\<rparr> else v)
              in case load_clients e1 of
                   (Inl err, e2) \<Rightarrow> (finally (failed v1), e2)
                 | (Inr storedClients, e2) \<Rightarrow>
                     (finally (if \<not> ignore then v1\<lparr>clients_state := storedClients\<rparr> else v1), e2)))"

text \<open>
  The form state \<^verbatim>\<open>saveOrder\<close> reads. \<^verbatim>\<open>kg\<close> and \<^verbatim>\<open>price\<close> are the memoised numbers of the
  page; the order's id (from \<^verbatim>\<open>Date.now()\<close> and \<^verbatim>\<open>Math.random()\<close>) and its creation time are
  arguments.
\<close>

record order_form =
  orderType :: OrderType
  kg :: rat
  flavor :: jsstring
  doughColor_form :: jsstring
  price_form :: rat
  decorated_form :: bool
  selectedClientId :: jsstring
  clientName_form :: jsstring
  clientPhone_form :: jsstring
  deliveryDate_form :: jsstring
  notes_form :: jsstring

text \<open>
  \<^verbatim>\<open>String.prototype.trim\<close> removes white space and line terminators from both ends: the
  code units U+0009 to U+000D, U+0020, U+00A0, U+1680, U+2000 to U+200A, U+2028, U+2029,
  U+202F, U+205F, U+3000 and U+FEFF.
\<close>

definition is_space :: "16 word \<Rightarrow> bool" where
  "is_space c \<longleftrightarrow>
     c \<in> set [0x09, 0x0A, 0x0B, 0x0C, 0x0D, 0x20, 0xA0, 0x1680,
              0x2000, 0x2001, 0x2002, 0x2003, 0x2004, 0x2005, 0x2006, 0x2007, 0x2008, 0x2009,
              0x200A, 0x2028, 0x2029, 0x202F, 0x205F, 0x3000, 0xFEFF]"

definition trim :: "jsstring \<Rightarrow> jsstring" where
  "trim s = rev (dropWhile is_space (rev (dropWhile is_space s)))"

text \<open>\<^verbatim>\<open>s || undefined\<close> for a string: the empty string is falsy.\<close>

definition or_undefined :: "jsstring \<Rightarrow> jsstring option" where
  "or_undefined s = (if s = [] then None else Some s)"

definition new_order :: "order_form \<Rightarrow> jsstring \<Rightarrow> jsstring \<Rightarrow> Order" where
  "new_order f oid now =
     \<lparr>id_order = oid,
      type_order = orderType f,
      sizeKg = kg f,
      flavorName = flavor f,
      doughColor = doughColor_form f,
      price = price_form f,
      clientId = or_undefined (selectedClientId f),
      clientName = or_undefined (clientName_form f),
      clientPhone = or_undefined (clientPhone_form f),
      deliveryDate = (if orderType f = custom then Some (deliveryDate_form f) else None),
      status = pending,
      createdAt = now,
      notes_order = or_undefined (trim (notes_form f)),
      decorated = (if decorated_form f then Some True else None),
      decoratedSurcharge = (if decorated_form f then Some DECORATED_SURCHARGE else None)\<rparr>"

definition saveOrder :: "env \<Rightarrow> order_form \<Rightarrow> jsstring \<Rightarrow> jsstring \<Rightarrow> (error + Order) \<times> env" where
  "saveOrder e f oid now =
     (let ord = new_order f oid now
      in case storage_put e orders (OrderItem ord) of
           (Inl err, e1) \<Rightarrow> (Inl err, e1)
         | (Inr u, e1) \<Rightarrow>
             (Inr ord, try_publish (isBrowser e1 \<and> bcSupported e1) (orders_changed (Some (id_order ord))) e1))"

definition handleRemoveClient :: "env \<Rightarrow> home_view \<Rightarrow> jsstring \<Rightarrow> home_view \<times> env" where
  "handleRemoveClient e v cid =
     (let v1 = v\<lparr>saving := True\<rparr>
      in case storage_delete e clients cid of
           (Inl err, e1) \<Rightarrow>
             (v1\<lparr>message := Some (toast_error,
                    ''N'' @ [CHR 0xC3, CHR 0xA3] @ ''o foi poss'' @ [CHR 0xC3, CHR 0xAD]
                      @ ''vel remover o cliente.''),
                 saving := False\<rparr>, e1)
         | (Inr u, e1) \<Rightarrow>
             (v1\<lparr>clients_state := filter (\<lambda>c. getProp ''id'' c \<noteq> Some cid) (clients_state v1),
                 saving := False\<rparr>, e1))"

section \<open>The deliveries dashboard\<close>

text \<open>
  The dashboard has its own copies of \<^verbatim>\<open>getDB\<close>, \<^verbatim>\<open>idbGetAll\<close>, \<^verbatim>\<open>idbPut\<close>, \<^verbatim>\<open>idbDelete\<close> and
  \<^verbatim>\<open>readFromLocalStorage\<close>, the same as the order page's, for the one store \<^verbatim>\<open>orders\<close>, and
  its own three routed operations, which compare \<^verbatim>\<open>x.id\<close> and notify on the flat path.
\<close>

record dashboard_view =
  orders_state :: "item list"
  message_d :: "(toast \<times> string) option"
  saving_d :: bool

definition storageGetAll :: "env \<Rightarrow> StoreName \<Rightarrow> (error + item list) \<times> env" where
  "storageGetAll e store =
     (if hasIndexedDB e then idbGetAll e store
      else (Inr (readFromLocalStorage e store), e))"

definition storagePut :: "env \<Rightarrow> StoreName \<Rightarrow> item \<Rightarrow> (error + unit) \<times> env" where
  "storagePut e store v =
     (if hasIndexedDB e then idbPut e store v
      else if \<not> isBrowser e then (Inr (), e)
      else (let current = readFromLocalStorage e store;
                current' = (case findIndex (\<lambda>x. getProp ''id'' x = getProp ''id'' v) current of
                              Some idx \<Rightarrow> current[idx := v]
                            | None \<Rightarrow> current @ [v]);
                e1 = setItem (lsKeys store) (JSON_stringify e current') e
            in (Inr (), try_publish (bcSupported e1)
                          (orders_changed (getProp ''id'' v)) e1)))"

definition storageDelete :: "env \<Rightarrow> StoreName \<Rightarrow> jsstring \<Rightarrow> (error + unit) \<times> env" where
  "storageDelete e store k =
     (if hasIndexedDB e then idbDelete e store k
      else if \<not> isBrowser e then (Inr (), e)
      else (let current = readFromLocalStorage e store;
                next = filter (\<lambda>x. getProp ''id'' x \<noteq> Some k) current;
                e1 = setItem (lsKeys store) (JSON_stringify e next) e
            in (Inr (), try_publish (bcSupported e1) (orders_changed (Some k)) e1)))"

text \<open>\<^verbatim>\<open>removeOrder\<close>; \<open>answer\<close> is the result of \<^verbatim>\<open>confirm('Remover este pedido?')\<close>.\<close>

definition removeOrder :: "env \<Rightarrow> bool \<Rightarrow> dashboard_view \<Rightarrow> jsstring \<Rightarrow> dashboard_view \<times> env" where
  "removeOrder e answer v oid =
     (if \<not> answer then (v, e)
      else (let v1 = v\<lparr>saving_d := True\<rparr>
            in case idbDelete e orders oid of
                 (Inl err, e1) \<Rightarrow>
                   (v1\<lparr>message_d := Some (toast_error, ''Falha ao remover.''), saving_d := False\<rparr>, e1)
               | (Inr u, e1) \<Rightarrow>
                   (v1\<lparr>orders_state := filter (\<lambda>x. getProp ''id'' x \<noteq> Some oid) (orders_state v1),
                       message_d := Some (toast_success, ''Pedido removido.''),
                       saving_d := False\<rparr>, e1)))"

section \<open>Notions used by the properties\<close>

text \<open>How many records of a collection have the key \<open>k\<close> in the store \<open>store\<close>.\<close>

definition count_key :: "StoreName \<Rightarrow> jsstring option \<Rightarrow> item list \<Rightarrow> nat" where
  "count_key store k xs = length (filter (\<lambda>x. getKeyValue store x = k) xs)"

text \<open>
  The primary key of a record in the data model: a catalog entry's name, a customer's id,
  an order's id.
\<close>

fun record_key :: "item \<Rightarrow> jsstring" where
  "record_key (FlavorItem f) = name f"
| "record_key (ClientItem c) = id_client c"
| "record_key (OrderItem ord) = id_order ord"

text \<open>The records of a collection whose key is not \<open>k\<close>, in their order.\<close>

definition others :: "StoreName \<Rightarrow> jsstring option \<Rightarrow> item list \<Rightarrow> item list" where
  "others store k xs = filter (\<lambda>x. getKeyValue store x \<noteq> k) xs"

text \<open>
  The specification's reading of \<^verbatim>\<open>bulkPut\<close>: \<^verbatim>\<open>put(kind, r)\<close> for each record in order,
  each awaited before the next.
\<close>

fun put_in_order :: "env \<Rightarrow> StoreName \<Rightarrow> item list \<Rightarrow> env" where
  "put_in_order e store [] = e"
| "put_in_order e store (v # vs) = put_in_order (snd (storage_put e store v)) store vs"

text \<open>
  The backend in use works: the database opens and the engine raises no fault, or, on the
  flat backend, the platform's serialiser obeys its law.
\<close>

definition backend_ok :: "env \<Rightarrow> bool" where
  "backend_ok e \<longleftrightarrow>
     (if hasIndexedDB e
      then fst (getDB e) = Inr () \<and> \<not> idbReadFails e \<and> \<not> idbTxFails e
      else json_roundtrip e)"

text \<open>The collection of a kind that the backend in use holds.\<close>

definition stored :: "env \<Rightarrow> StoreName \<Rightarrow> item list" where
  "stored e store = (if hasIndexedDB e then idbStores e store else readFromLocalStorage e store)"

text \<open>
  What the operations read of the engine besides the records: whether IndexedDB is there,
  whether the database opens, and the faults of reads and of writing transactions.
\<close>

definition engine :: "env \<Rightarrow> bool \<times> (error + unit) \<times> bool \<times> bool" where
  "engine e = (hasIndexedDB e, fst (getDB e), idbReadFails e, idbTxFails e)"

subsection \<open>Example contexts\<close>

text \<open>
  A serialiser that obeys the law of \<open>json_roundtrip\<close> on every collection: the collection's
  number in an enumeration of all collections, in unary. The example contexts use it in
  place of the platform's.
\<close>

instance Flavor_ext :: (countable) countable
proof (rule countable_classI [of "\<lambda>r. to_nat (name r, pricePerKg r, Flavor.more r)"])
  fix x y :: "'a Flavor_scheme"
  assume "to_nat (name x, pricePerKg x, Flavor.more x) = to_nat (name y, pricePerKg y, Flavor.more y)"
  then show "x = y" by (simp add: Flavor.equality)
qed

instance Client_ext :: (countable) countable
proof (rule countable_classI
    [of "\<lambda>r. to_nat (id_client r, name_client r, phone r, Client.more r)"])
  fix x y :: "'a Client_scheme"
  assume "to_nat (id_client x, name_client x, phone x, Client.more x)
        = to_nat (id_client y, name_client y, phone y, Client.more y)"
  then show "x = y" by (simp add: Client.equality)
qed

instance OrderStatus :: countable
  by countable_datatype

instance OrderType :: countable
  by countable_datatype

instance Order_ext :: (countable) countable
proof (rule countable_classI
    [of "\<lambda>r. to_nat ((id_order r, type_order r, sizeKg r, flavorName r, doughColor r, price r,
                        clientId r, clientName r),
                       (clientPhone r, deliveryDate r, status r, createdAt r, notes_order r,
                        decorated r, decoratedSurcharge r, Order.more r))"])
  fix x y :: "'a Order_scheme"
  assume "to_nat ((id_order x, type_order x, sizeKg x, flavorName x, doughColor x, price x,
                   clientId x, clientName x),
                  (clientPhone x, deliveryDate x, status x, createdAt x, notes_order x,
                   decorated x, decoratedSurcharge x, Order.more x))
        = to_nat ((id_order y, type_order y, sizeKg y, flavorName y, doughColor y, price y,
                   clientId y, clientName y),
                  (clientPhone y, deliveryDate y, status y, createdAt y, notes_order y,
                   decorated y, decoratedSurcharge y, Order.more y))"
  then show "x = y" by (simp add: Order.equality)
qed

instance item :: countable
  by countable_datatype

text \<open>
  \<open>unary_parse\<close> reads the text \<^verbatim>\<open>null\<close> as a value that is not an array and rejects
  every other text that is not such a number.
\<close>

definition unary_stringify :: "item list \<Rightarrow> string" where
  "unary_stringify xs = replicate (Suc (to_nat xs)) CHR ''1''"

definition unary_parse :: "string \<Rightarrow> parsed option" where
  "unary_parse s =
     (if s = ''null'' then Some JOther
      else if s = [] \<or> (\<exists>c\<in>set s. c \<noteq> CHR ''1'') then None
      else Some (JArray (from_nat (length s - 1))))"

text \<open>A browser without IndexedDB and with nothing stored: the flat backend is in use.\<close>

definition flat_context :: env where
  "flat_context =
     \<lparr>isBrowser = True, indexedDBDefined = False, localStorage = Map.empty,
      JSON_parse = unary_parse, JSON_stringify = unary_stringify,
      dbPromise = None, idbOpenFails = False, idbReadFails = False, idbTxFails = False,
      idbStores = (\<lambda>s. []), bcSupported = True, bcThrows = False, bcPosted = []\<rparr>"

text \<open>A browser with IndexedDB, empty object stores and nothing in localStorage.\<close>

definition idb_context :: env where
  "idb_context = flat_context\<lparr>indexedDBDefined := True\<rparr>"

definition Chocolate50 :: item where
  "Chocolate50 = FlavorItem \<lparr>name = str ''Chocolate'', pricePerKg = 50\<rparr>"

definition chocolate99 :: item where
  "chocolate99 = FlavorItem \<lparr>name = str ''chocolate'', pricePerKg = 99\<rparr>"

definition Chocolate60 :: item where
  "Chocolate60 = FlavorItem \<lparr>name = str ''Chocolate'', pricePerKg = 60\<rparr>"

definition Chocolate70 :: item where
  "Chocolate70 = FlavorItem \<lparr>name = str ''Chocolate'', pricePerKg = 70\<rparr>"

definition Morango60 :: item where
  "Morango60 = FlavorItem \<lparr>name = str ''Morango'', pricePerKg = 60\<rparr>"

definition Morango55 :: item where
  "Morango55 = FlavorItem \<lparr>name = str ''Morango'', pricePerKg = 55\<rparr>"

definition client_ana :: Client where
  "client_ana =
     \<lparr>id_client = str ''1700000000000'', name_client = str ''Ana'',
      phone = str ''(11) 91234-5678''\<rparr>"

definition order_ana :: Order where
  "order_ana =
     \<lparr>id_order = str ''lq1x_a1b2c3'', type_order = custom, sizeKg = 2, flavorName = str ''Chocolate'',
      doughColor = str ''Branco'', price = 100, clientId = Some (str ''1700000000000''),
      clientName = Some (str ''Ana''), clientPhone = Some (str ''(11) 91234-5678''),
      deliveryDate = Some (str ''2025-01-31''), status = pending,
      createdAt = str ''2025-01-15T12:00:00.000Z'', notes_order = None, decorated = None,
      decoratedSurcharge = None\<rparr>"

definition form_ana :: order_form where
  "form_ana =
     \<lparr>orderType = custom, kg = 2, flavor = str ''Chocolate'', doughColor_form = str ''Branco'',
      price_form = 100, decorated_form = False, selectedClientId = str ''1700000000000'',
      clientName_form = str ''Ana'', clientPhone_form = str ''(11) 91234-5678'',
      deliveryDate_form = str ''2025-01-31'', notes_form = str '' ''\<rparr>"

text \<open>The two contexts with one client and one order of hers stored.\<close>

definition flat_ana :: env where
  "flat_ana =
     flat_context\<lparr>localStorage :=
       [''cakeClients'' \<mapsto> unary_stringify [ClientItem client_ana],
        ''cakeOrders'' \<mapsto> unary_stringify [OrderItem order_ana]]\<rparr>"

definition idb_ana :: env where
  "idb_ana =
     idb_context\<lparr>idbStores :=
       (\<lambda>s. if s = clients then [ClientItem client_ana]
            else if s = orders then [OrderItem order_ana] else [])\<rparr>"

text \<open>
  A browser with IndexedDB and empty object stores whose flat backend still holds the
  flavors \<open>vs\<close>.
\<close>

definition idb_flat_holding :: "item list \<Rightarrow> env" where
  "idb_flat_holding vs = idb_context\<lparr>localStorage := [''cakeFlavors'' \<mapsto> unary_stringify vs]\<rparr>"

definition Baunilha45 :: item where
  "Baunilha45 = FlavorItem \<lparr>name = str ''Baunilha'', pricePerKg = 45\<rparr>"

definition Limao40 :: item where
  "Limao40 = FlavorItem \<lparr>name = str ''Lim'' @ [0xE3] @ str ''o'', pricePerKg = 40\<rparr>"

text \<open>A browser without IndexedDB whose flat backend holds the flavors \<open>vs\<close>.\<close>

definition flat_holding :: "item list \<Rightarrow> env" where
  "flat_holding vs = flat_context\<lparr>localStorage := [''cakeFlavors'' \<mapsto> unary_stringify vs]\<rparr>"

definition home0 :: home_view where
  "home0 = \<lparr>flavors_state = [], clients_state = [], message = None, saving = False,
            initializing = True\<rparr>"

definition dashboard0 :: dashboard_view where
  "dashboard0 = \<lparr>orders_state = [], message_d = None, saving_d = False\<rparr>"

section \<open>Facts about strings\<close>

lemma unat_of_char: "unat (of_char c :: 16 word) = of_char c"
proof -
  have "(of_char c :: 16 word) = of_nat (of_char c)"
    by (simp add: of_nat_of_char)
  then have "unat (of_char c :: 16 word) = of_char c mod 2 ^ 16"
    by (simp add: unat_of_nat)
  moreover have "(of_char c :: nat) < 256"
    by simp
  ultimately show ?thesis by simp
qed

lemma of_char_word_less: "(of_char c :: 16 word) < of_char d \<longleftrightarrow> c < d"
  by (simp add: word_less_nat_alt unat_of_char less_char_def)

lemma of_char_word_eq: "(of_char c :: 16 word) = of_char d \<longleftrightarrow> c = d"
proof
  assume "(of_char c :: 16 word) = of_char d"
  then have "unat (of_char c :: 16 word) = unat (of_char d :: 16 word)"
    by simp
  then show "c = d" by (simp add: unat_of_char)
qed simp

lemma str_simps [simp]: "str [] = []" "str (c # s) = of_char c # str s"
  by (simp_all add: str_def)

lemma str_eq_iff [simp]: "str a = str b \<longleftrightarrow> a = b"
proof (induction a arbitrary: b)
  case Nil
  then show ?case by (cases b) simp_all
next
  case (Cons c a)
  then show ?case by (cases b) (simp_all add: of_char_word_eq)
qed

lemma str_less_iff [simp]: "str a < str b \<longleftrightarrow> a < b"
proof (induction a arbitrary: b)
  case Nil
  then show ?case by (cases b) simp_all
next
  case (Cons c a)
  then show ?case by (cases b) (simp_all add: of_char_word_less of_char_word_eq)
qed

section \<open>Facts about the flat backend\<close>

lemma unary_roundtrip:
  "unary_stringify xs \<noteq> [] \<and> unary_parse (unary_stringify xs) = Some (JArray xs)"
  by (simp add: unary_stringify_def unary_parse_def)

lemma findIndex_None_iff: "findIndex P xs = None \<longleftrightarrow> (\<forall>x\<in>set xs. \<not> P x)"
  by (induction xs) auto

lemma findIndex_Some:
  "findIndex P xs = Some i \<Longrightarrow> i < length xs \<and> P (xs ! i) \<and> (\<forall>j<i. \<not> P (xs ! j))"
proof (induction xs arbitrary: i)
  case Nil
  then show ?case by simp
next
  case (Cons x xs)
  show ?case
  proof (cases "P x")
    case True
    with Cons.prems show ?thesis by simp
  next
    case False
    with Cons.prems obtain k where k: "findIndex P xs = Some k" "i = Suc k"
      by auto
    from Cons.IH [OF k(1)] False k(2) show ?thesis
      by (auto simp: less_Suc_eq_0_disj)
  qed
qed

lemma filter_update_same:
  "i < length xs \<Longrightarrow> P (xs ! i) \<Longrightarrow> P v \<Longrightarrow> length (filter P (xs[i := v])) = length (filter P xs)"
proof (induction xs arbitrary: i)
  case Nil
  then show ?case by simp
next
  case (Cons x xs)
  then show ?case by (cases i) auto
qed

lemma filter_update_other:
  "i < length xs \<Longrightarrow> \<not> P (xs ! i) \<Longrightarrow> \<not> P v \<Longrightarrow> filter P (xs[i := v]) = filter P xs"
proof (induction xs arbitrary: i)
  case Nil
  then show ?case by simp
next
  case (Cons x xs)
  then show ?case by (cases i) auto
qed

lemma put_current_count:
  "length (filter (\<lambda>x. getKeyValue store x = getKeyValue store v) (put_current store v xs))
     = max 1 (length (filter (\<lambda>x. getKeyValue store x = getKeyValue store v) xs))"
proof (cases "findIndex (\<lambda>x. getKeyValue store x = getKeyValue store v) xs")
  case None
  then have "filter (\<lambda>x. getKeyValue store x = getKeyValue store v) xs = []"
    by (simp add: findIndex_None_iff filter_empty_conv)
  with None show ?thesis by (simp add: put_current_def)
next
  case (Some i)
  from findIndex_Some [OF Some] have i: "i < length xs" "getKeyValue store (xs ! i) = getKeyValue store v"
    by auto
  then have "xs ! i \<in> set (filter (\<lambda>x. getKeyValue store x = getKeyValue store v) xs)"
    by simp
  then have "1 \<le> length (filter (\<lambda>x. getKeyValue store x = getKeyValue store v) xs)"
    by (metis One_nat_def Suc_leI length_pos_if_in_set)
  with Some i show ?thesis
    by (simp add: put_current_def filter_update_same max_def)
qed

lemma put_current_frame:
  "filter (\<lambda>x. getKeyValue store x \<noteq> getKeyValue store v) (put_current store v xs)
     = filter (\<lambda>x. getKeyValue store x \<noteq> getKeyValue store v) xs"
proof (cases "findIndex (\<lambda>x. getKeyValue store x = getKeyValue store v) xs")
  case None
  then show ?thesis by (simp add: put_current_def)
next
  case (Some i)
  from findIndex_Some [OF Some] show ?thesis
    by (simp add: put_current_def Some filter_update_other)
qed

lemma findIndex_update:
  "findIndex P xs = Some i \<Longrightarrow> P v \<Longrightarrow> findIndex P (xs[i := v]) = Some i"
proof (induction xs arbitrary: i)
  case Nil
  then show ?case by simp
next
  case (Cons x xs)
  then show ?case by (cases i) (auto split: if_splits)
qed

lemma findIndex_snoc:
  "findIndex P xs = None \<Longrightarrow> P v \<Longrightarrow> findIndex P (xs @ [v]) = Some (length xs)"
  by (induction xs) (auto split: if_splits)

lemma put_current_idem: "put_current store v (put_current store v xs) = put_current store v xs"
proof (cases "findIndex (\<lambda>x. getKeyValue store x = getKeyValue store v) xs")
  case None
  then show ?thesis by (simp add: put_current_def findIndex_snoc)
next
  case (Some i)
  then show ?thesis by (simp add: put_current_def findIndex_update)
qed

lemma read_setItem_same:
  "isBrowser e \<Longrightarrow> json_roundtrip e \<Longrightarrow>
   readFromLocalStorage (setItem (lsKeys store) (JSON_stringify e xs) e) store = xs"
  by (simp add: readFromLocalStorage_def setItem_def json_roundtrip_def)

lemma lsKeys_inj: "lsKeys s = lsKeys t \<longleftrightarrow> s = t"
  by (cases s; cases t) simp_all

declare lsKeys.simps [simp del]

lemma read_setItem_other:
  "s \<noteq> t \<Longrightarrow> readFromLocalStorage (setItem (lsKeys t) raw e) s = readFromLocalStorage e s"
  by (simp add: readFromLocalStorage_def setItem_def lsKeys_inj split: option.splits)


lemma hasIndexedDB_setItem [simp]: "hasIndexedDB (setItem k raw e) = hasIndexedDB e"
  by (simp add: hasIndexedDB_def setItem_def)

lemma isBrowser_setItem [simp]: "isBrowser (setItem k raw e) = isBrowser e"
  by (simp add: setItem_def)

lemma json_roundtrip_setItem [simp]: "json_roundtrip (setItem k raw e) = json_roundtrip e"
  by (simp add: json_roundtrip_def setItem_def)

lemma JSON_stringify_setItem [simp]: "JSON_stringify (setItem k raw e) = JSON_stringify e"
  by (simp add: setItem_def)

lemma flat_getAll: "\<not> hasIndexedDB e \<Longrightarrow> storage_getAll e store = (Inr (readFromLocalStorage e store), e)"
  by (simp add: storage_getAll_def)

lemma flat_put:
  "isBrowser e \<Longrightarrow> \<not> hasIndexedDB e \<Longrightarrow>
   storage_put e store v =
     (Inr (), setItem (lsKeys store) (JSON_stringify e (put_current store v (readFromLocalStorage e store))) e)"
  by (simp add: storage_put_def)

lemma flat_delete:
  "isBrowser e \<Longrightarrow> \<not> hasIndexedDB e \<Longrightarrow>
   storage_delete e store k =
     (Inr (), setItem (lsKeys store) (JSON_stringify e (delete_current store k (readFromLocalStorage e store))) e)"
  by (simp add: storage_delete_def)

lemma read_not_browser: "\<not> isBrowser e \<Longrightarrow> readFromLocalStorage e store = []"
  by (simp add: readFromLocalStorage_def)

lemma put_current_shape:
  "(\<exists>i<length xs. getKeyValue store (xs ! i) = getKeyValue store v
        \<and> (\<forall>j<i. getKeyValue store (xs ! j) \<noteq> getKeyValue store v)
        \<and> put_current store v xs = xs[i := v])
   \<or> ((\<forall>x\<in>set xs. getKeyValue store x \<noteq> getKeyValue store v) \<and> put_current store v xs = xs @ [v])"
proof (cases "findIndex (\<lambda>x. getKeyValue store x = getKeyValue store v) xs")
  case None
  then have "\<forall>x\<in>set xs. getKeyValue store x \<noteq> getKeyValue store v"
    by (simp add: findIndex_None_iff)
  with None show ?thesis by (simp add: put_current_def)
next
  case (Some i)
  from findIndex_Some [OF Some] Some show ?thesis
    by (auto simp: put_current_def)
qed

lemma put_current_mem: "v \<in> set (put_current store v xs)"
proof (cases "findIndex (\<lambda>x. getKeyValue store x = getKeyValue store v) xs")
  case None
  then show ?thesis by (simp add: put_current_def)
next
  case (Some i)
  from findIndex_Some [OF Some] Some show ?thesis
    by (auto simp: put_current_def intro: set_update_memI)
qed

lemma json_roundtrip_flat [simp]: "json_roundtrip flat_context"
  by (simp add: json_roundtrip_def flat_context_def unary_roundtrip)

lemma flat_context_simps [simp]:
  "isBrowser flat_context" "\<not> hasIndexedDB flat_context"
  by (simp_all add: flat_context_def hasIndexedDB_def)

section \<open>Reading the flat backend\<close>

text \<open>
  C3. Reading a collection of the flat backend always yields a list and never an error:
  where nothing is stored under the key, where the stored text does not parse, and where
  it parses to a value that is not an array, the list is empty; and on the flat backend
  \<^verbatim>\<open>getAll\<close> resolves to what was read, leaving the context as it was.
\<close>

theorem readFromLocalStorage_corrupt_empty:
  "(localStorage e (lsKeys store) = None \<longrightarrow> readFromLocalStorage e store = [])
   \<and> (\<forall>raw. localStorage e (lsKeys store) = Some raw \<and> JSON_parse e raw = None
          \<longrightarrow> readFromLocalStorage e store = [])
   \<and> (\<forall>raw. localStorage e (lsKeys store) = Some raw \<and> JSON_parse e raw = Some JOther
          \<longrightarrow> readFromLocalStorage e store = [])
   \<and> (\<not> hasIndexedDB e \<longrightarrow> storage_getAll e store = (Inr (readFromLocalStorage e store), e))"
  by (auto simp: readFromLocalStorage_def storage_getAll_def)

theorem readFromLocalStorage_corrupt_empty_witness:
  "localStorage flat_context (lsKeys flavors) = None
   \<and> readFromLocalStorage flat_context flavors = []
   \<and> localStorage (setItem ''cakeFlavors'' ''{name:'' flat_context) (lsKeys flavors) = Some ''{name:''
   \<and> JSON_parse (setItem ''cakeFlavors'' ''{name:'' flat_context) ''{name:'' = None
   \<and> readFromLocalStorage (setItem ''cakeFlavors'' ''{name:'' flat_context) flavors = []
   \<and> localStorage (setItem ''cakeFlavors'' ''null'' flat_context) (lsKeys flavors) = Some ''null''
   \<and> JSON_parse (setItem ''cakeFlavors'' ''null'' flat_context) ''null'' = Some JOther
   \<and> readFromLocalStorage (setItem ''cakeFlavors'' ''null'' flat_context) flavors = []
   \<and> \<not> hasIndexedDB flat_context
   \<and> storage_getAll (setItem ''cakeFlavors'' ''null'' flat_context) flavors
        = (Inr [], setItem ''cakeFlavors'' ''null'' flat_context)"
proof -
  let ?bad = "setItem ''cakeFlavors'' ''{name:'' flat_context"
  let ?null = "setItem ''cakeFlavors'' ''null'' flat_context"
  have absent: "localStorage flat_context (lsKeys flavors) = None"
    by (simp add: flat_context_def)
  have bad: "localStorage ?bad (lsKeys flavors) = Some ''{name:''" "JSON_parse ?bad ''{name:'' = None"
    by (simp_all add: flat_context_def setItem_def unary_parse_def lsKeys.simps)
  have null: "localStorage ?null (lsKeys flavors) = Some ''null''" "JSON_parse ?null ''null'' = Some JOther"
    by (simp_all add: flat_context_def setItem_def unary_parse_def lsKeys.simps)
  have flat: "\<not> hasIndexedDB ?null" "\<not> hasIndexedDB flat_context"
    by simp_all
  from absent bad null flat
    readFromLocalStorage_corrupt_empty [of flat_context flavors]
    readFromLocalStorage_corrupt_empty [of ?bad flavors]
    readFromLocalStorage_corrupt_empty [of ?null flavors]
  show ?thesis by simp
qed

section \<open>Deleting on the flat backend\<close>

lemma delete_current_count [simp]: "count_key store (Some k) (delete_current store k xs) = 0"
  by (simp add: count_key_def delete_current_def filter_empty_conv)

lemma delete_current_absent:
  "count_key store (Some k) xs = 0 \<Longrightarrow> delete_current store k xs = xs"
  by (simp add: count_key_def delete_current_def filter_empty_conv filter_id_conv)

lemma delete_current_idem [simp]:
  "delete_current store k (delete_current store k xs) = delete_current store k xs"
  by (simp add: delete_current_def)

lemma count_key_Nil [simp]: "count_key store k [] = 0"
  by (simp add: count_key_def)

section \<open>Putting twice on the flat backend\<close>

lemma count_key_put_current:
  "count_key store (getKeyValue store v) (put_current store v xs)
     = max 1 (count_key store (getKeyValue store v) xs)"
  by (simp add: count_key_def put_current_count)

text \<open>
  C1, as amended. On the flat backend two \<^verbatim>\<open>put(kind, R)\<close> in a row both succeed, the
  second leaves the collection as the first made it, R is in it, and the number of records
  with R's key is the number before the first put, or one where there was none: exactly one
  whenever the collection held at most one record with that key.
\<close>

theorem flat_put_twice_one_copy:
  assumes "isBrowser e" and "\<not> hasIndexedDB e" and "json_roundtrip e"
  shows "\<exists>e1 e2 cur xs.
           storage_getAll e store = (Inr cur, e)
         \<and> storage_put e store R = (Inr (), e1)
         \<and> storage_put e1 store R = (Inr (), e2)
         \<and> storage_getAll e1 store = (Inr xs, e1)
         \<and> storage_getAll e2 store = (Inr xs, e2)
         \<and> R \<in> set xs
         \<and> count_key store (getKeyValue store R) xs = max 1 (count_key store (getKeyValue store R) cur)
         \<and> (count_key store (getKeyValue store R) cur \<le> 1
              \<longrightarrow> count_key store (getKeyValue store R) xs = 1)"
proof -
  let ?cur = "readFromLocalStorage e store"
  let ?xs = "put_current store R ?cur"
  let ?e1 = "setItem (lsKeys store) (JSON_stringify e ?xs) e"
  let ?e2 = "setItem (lsKeys store) (JSON_stringify e ?xs) ?e1"
  have r1: "readFromLocalStorage ?e1 store = ?xs"
    using assms by (simp add: read_setItem_same)
  have p1: "storage_put e store R = (Inr (), ?e1)"
    using assms by (simp add: flat_put)
  have p2: "storage_put ?e1 store R = (Inr (), ?e2)"
    using assms r1 by (simp add: flat_put put_current_idem)
  have r2: "readFromLocalStorage ?e2 store = ?xs"
    using assms read_setItem_same [of ?e1 store ?xs] by simp
  have g0: "storage_getAll e store = (Inr ?cur, e)"
    using assms by (simp add: flat_getAll)
  have g1: "storage_getAll ?e1 store = (Inr ?xs, ?e1)"
    using assms r1 by (simp add: flat_getAll)
  have g2: "storage_getAll ?e2 store = (Inr ?xs, ?e2)"
    using assms r2 by (simp add: flat_getAll)
  have m: "R \<in> set ?xs" by (rule put_current_mem)
  have c: "count_key store (getKeyValue store R) ?xs
                   = max 1 (count_key store (getKeyValue store R) ?cur)"
    by (rule count_key_put_current)
  have c1: "count_key store (getKeyValue store R) ?cur \<le> 1
                   \<longrightarrow> count_key store (getKeyValue store R) ?xs = 1"
    using c by simp
  show ?thesis
    by (intro exI conjI) (rule g0 p1 p2 g1 g2 m c c1)+
qed

lemma flat_bulkPut:
  "isBrowser e \<Longrightarrow> \<not> hasIndexedDB e \<Longrightarrow>
   storage_bulkPut e store vs = (Inr (), setItem (lsKeys store) (JSON_stringify e vs) e)"
  by (simp add: storage_bulkPut_def)

theorem flat_put_twice_one_copy_witness:
  "isBrowser flat_context \<and> \<not> hasIndexedDB flat_context \<and> json_roundtrip flat_context
   \<and> (\<exists>e1 e2 cur xs.
           storage_getAll flat_context flavors = (Inr cur, flat_context)
         \<and> storage_put flat_context flavors Chocolate50 = (Inr (), e1)
         \<and> storage_put e1 flavors Chocolate50 = (Inr (), e2)
         \<and> storage_getAll e1 flavors = (Inr xs, e1)
         \<and> storage_getAll e2 flavors = (Inr xs, e2)
         \<and> Chocolate50 \<in> set xs
         \<and> count_key flavors (getKeyValue flavors Chocolate50) xs
              = max 1 (count_key flavors (getKeyValue flavors Chocolate50) cur)
         \<and> (count_key flavors (getKeyValue flavors Chocolate50) cur \<le> 1
              \<longrightarrow> count_key flavors (getKeyValue flavors Chocolate50) xs = 1))"
  using flat_put_twice_one_copy [of flat_context flavors Chocolate50] by simp

text \<open>
  C1 as stated fails on a collection that holds two records with one key, as the flat
  \<^verbatim>\<open>bulkPut\<close> writes it: \<^verbatim>\<open>put\<close> replaces the first of them and keeps the second.
\<close>

theorem flat_put_twice_counterexample:
  "fst (storage_getAll
         (snd (storage_put
           (snd (storage_put
             (snd (storage_bulkPut flat_context flavors [Chocolate50, Chocolate60]))
             flavors Chocolate70))
           flavors Chocolate70))
         flavors) = Inr [Chocolate70, Chocolate60]
   \<and> count_key flavors (getKeyValue flavors Chocolate70) [Chocolate70, Chocolate60] = 2"
proof -
  let ?e0 = "setItem (lsKeys flavors) (JSON_stringify flat_context [Chocolate50, Chocolate60]) flat_context"
  let ?e1 = "setItem (lsKeys flavors) (JSON_stringify flat_context [Chocolate70, Chocolate60]) ?e0"
  let ?e2 = "setItem (lsKeys flavors) (JSON_stringify flat_context [Chocolate70, Chocolate60]) ?e1"
  have b: "storage_bulkPut flat_context flavors [Chocolate50, Chocolate60] = (Inr (), ?e0)"
    by (simp add: flat_bulkPut)
  have r0: "readFromLocalStorage ?e0 flavors = [Chocolate50, Chocolate60]"
    by (simp add: read_setItem_same)
  have k: "put_current flavors Chocolate70 [Chocolate50, Chocolate60] = [Chocolate70, Chocolate60]"
          "put_current flavors Chocolate70 [Chocolate70, Chocolate60] = [Chocolate70, Chocolate60]"
    by (simp_all add: put_current_def getKeyValue_def Chocolate50_def Chocolate60_def Chocolate70_def)
  have p1: "storage_put ?e0 flavors Chocolate70 = (Inr (), ?e1)"
    by (simp add: flat_put r0 k)
  have r1: "readFromLocalStorage ?e1 flavors = [Chocolate70, Chocolate60]"
    using read_setItem_same [of ?e0 flavors "[Chocolate70, Chocolate60]"] by simp
  have p2: "storage_put ?e1 flavors Chocolate70 = (Inr (), ?e2)"
    by (simp add: flat_put r1 k)
  have r2: "readFromLocalStorage ?e2 flavors = [Chocolate70, Chocolate60]"
    using read_setItem_same [of ?e1 flavors "[Chocolate70, Chocolate60]"] by simp
  have "fst (storage_getAll ?e2 flavors) = Inr [Chocolate70, Chocolate60]"
    by (simp add: flat_getAll r2)
  moreover have "count_key flavors (getKeyValue flavors Chocolate70) [Chocolate70, Chocolate60] = 2"
    by (simp add: count_key_def getKeyValue_def Chocolate60_def Chocolate70_def)
  ultimately show ?thesis by (simp add: b p1 p2)
qed

section \<open>Facts about the structured backend\<close>

lemma fits_key: "fits store v \<Longrightarrow> \<exists>k. getProp (keyPath store) v = Some k"
  by (cases store; cases v) simp_all

lemma fits_getKeyValue: "fits store v \<Longrightarrow> getKeyValue store v = getProp (keyPath store) v"
  by (cases store; cases v) (simp_all add: getKeyValue_def)

lemma os_put_fits: "fits store v \<Longrightarrow> \<exists>xs'. os_put store v xs = Inr xs'"
  using fits_key [of store v] by (auto simp: os_put_def)

lemma put_each_fits: "\<forall>v\<in>set vs. fits store v \<Longrightarrow> fst (put_each store vs xs) = None"
proof (induction vs arbitrary: xs)
  case Nil
  then show ?case by simp
next
  case (Cons v vs)
  then obtain xs' where "os_put store v xs = Inr xs'"
    using os_put_fits [of store v xs] by auto
  with Cons show ?case by simp
qed

text \<open>What the structured backend lets a caller observe of a store.\<close>

lemma getDB_fields [simp]:
  "isBrowser (snd (getDB e)) = isBrowser e"
  "indexedDBDefined (snd (getDB e)) = indexedDBDefined e"
  "localStorage (snd (getDB e)) = localStorage e"
  "JSON_parse (snd (getDB e)) = JSON_parse e"
  "JSON_stringify (snd (getDB e)) = JSON_stringify e"
  "idbOpenFails (snd (getDB e)) = idbOpenFails e"
  "idbReadFails (snd (getDB e)) = idbReadFails e"
  "idbTxFails (snd (getDB e)) = idbTxFails e"
  "idbStores (snd (getDB e)) = idbStores e"
  "bcSupported (snd (getDB e)) = bcSupported e"
  "bcThrows (snd (getDB e)) = bcThrows e"
  "bcPosted (snd (getDB e)) = bcPosted e"
  by (simp_all add: getDB_def Let_def split: option.splits)

lemma hasIndexedDB_getDB [simp]: "hasIndexedDB (snd (getDB e)) = hasIndexedDB e"
  by (simp add: hasIndexedDB_def)

lemma getDB_again [simp]: "fst (getDB (snd (getDB e))) = fst (getDB e)"
  by (auto simp: getDB_def Let_def hasIndexedDB_def split: option.splits)

lemma getDB_idbStores_update [simp]:
  "fst (getDB (e\<lparr>idbStores := f\<rparr>)) = fst (getDB e)"
  by (auto simp: getDB_def Let_def hasIndexedDB_def split: option.splits)

lemma hasIndexedDB_idbStores_update [simp]:
  "hasIndexedDB (e\<lparr>idbStores := f\<rparr>) = hasIndexedDB e"
  by (simp add: hasIndexedDB_def)

lemma getDB_pair:
  obtains r e' where "getDB e = (r, e')" and "idbStores e' = idbStores e"
    and "idbReadFails e' = idbReadFails e" and "idbTxFails e' = idbTxFails e"
proof -
  have "getDB e = (fst (getDB e), snd (getDB e))" by simp
  then show thesis using that [of "fst (getDB e)" "snd (getDB e)"] by simp
qed

lemma idbGetAll_eq:
  "idbGetAll e store
     = (case fst (getDB e) of
          Inl err \<Rightarrow> (Inl err, snd (getDB e))
        | Inr u \<Rightarrow> if idbReadFails e then (Inl ReadFailed, snd (getDB e))
                   else (Inr (idbStores e store), snd (getDB e)))"
proof -
  obtain r e' where g: "getDB e = (r, e')" "idbStores e' = idbStores e"
      "idbReadFails e' = idbReadFails e" "idbTxFails e' = idbTxFails e"
    by (rule getDB_pair)
  show ?thesis by (simp add: idbGetAll_def g split: sum.splits)
qed

lemma idbPut_eq:
  "idbPut e store v
     = (case fst (getDB e) of
          Inl err \<Rightarrow> (Inl err, snd (getDB e))
        | Inr u \<Rightarrow>
            (case os_put store v (idbStores e store) of
               Inl err \<Rightarrow> (Inl err, snd (getDB e))
             | Inr xs \<Rightarrow>
                 if idbTxFails e then (Inl TransactionFailed, snd (getDB e))
                 else (Inr (), (snd (getDB e))\<lparr>idbStores := (idbStores e)(store := xs)\<rparr>)))"
proof -
  obtain r e' where g: "getDB e = (r, e')" "idbStores e' = idbStores e"
      "idbReadFails e' = idbReadFails e" "idbTxFails e' = idbTxFails e"
    by (rule getDB_pair)
  show ?thesis by (simp add: idbPut_def g split: sum.splits)
qed

lemma idbBulkPut_eq:
  "idbBulkPut e store vs
     = (case fst (getDB e) of
          Inl err \<Rightarrow> (Inl err, snd (getDB e))
        | Inr u \<Rightarrow>
            if idbTxFails e
            then (Inl (case fst (put_each store vs (idbStores e store)) of
                         Some err \<Rightarrow> err | None \<Rightarrow> TransactionFailed), snd (getDB e))
            else (case fst (put_each store vs (idbStores e store)) of
                    Some err \<Rightarrow> Inl err | None \<Rightarrow> Inr (),
                  (snd (getDB e))\<lparr>idbStores :=
                     (idbStores e)(store := snd (put_each store vs (idbStores e store)))\<rparr>))"
proof -
  obtain r e' where g: "getDB e = (r, e')" "idbStores e' = idbStores e"
      "idbReadFails e' = idbReadFails e" "idbTxFails e' = idbTxFails e"
    by (rule getDB_pair)
  show ?thesis by (simp add: idbBulkPut_def g split: sum.splits prod.splits)
qed

lemma idbDelete_eq:
  "idbDelete e store k
     = (case fst (getDB e) of
          Inl err \<Rightarrow> (Inl err, snd (getDB e))
        | Inr u \<Rightarrow>
            if idbTxFails e then (Inl TransactionFailed, snd (getDB e))
            else (Inr (), (snd (getDB e))\<lparr>idbStores :=
                     (idbStores e)(store := os_delete store k (idbStores e store))\<rparr>))"
proof -
  obtain r e' where g: "getDB e = (r, e')" "idbStores e' = idbStores e"
      "idbReadFails e' = idbReadFails e" "idbTxFails e' = idbTxFails e"
    by (rule getDB_pair)
  show ?thesis by (simp add: idbDelete_def g split: sum.splits)
qed

lemma idb_getAll_obs:
  "hasIndexedDB e \<Longrightarrow>
   fst (storage_getAll e store)
     = (case fst (getDB e) of
          Inl err \<Rightarrow> Inl err
        | Inr u \<Rightarrow> if idbReadFails e then Inl ReadFailed else Inr (idbStores e store))"
  by (simp add: storage_getAll_def idbGetAll_eq split: sum.splits)

lemma idbPut_obs:
  assumes "fits store v"
  shows "hasIndexedDB (snd (idbPut e store v)) = hasIndexedDB e
       \<and> fst (getDB (snd (idbPut e store v))) = fst (getDB e)
       \<and> idbReadFails (snd (idbPut e store v)) = idbReadFails e
       \<and> idbTxFails (snd (idbPut e store v)) = idbTxFails e
       \<and> idbStores (snd (idbPut e store v))
           = (if fst (getDB e) = Inr () \<and> \<not> idbTxFails e
              then (idbStores e)(store := snd (put_each store [v] (idbStores e store)))
              else idbStores e)"
proof -
  obtain xs' where xs': "os_put store v (idbStores e store) = Inr xs'"
    using os_put_fits [OF assms] by blast
  show ?thesis
    by (cases "fst (getDB e)") (simp_all add: idbPut_eq xs')
qed

lemma idbBulkPut_obs:
  assumes "\<forall>v\<in>set vs. fits store v"
  shows "hasIndexedDB (snd (idbBulkPut e store vs)) = hasIndexedDB e
       \<and> fst (getDB (snd (idbBulkPut e store vs))) = fst (getDB e)
       \<and> idbReadFails (snd (idbBulkPut e store vs)) = idbReadFails e
       \<and> idbTxFails (snd (idbBulkPut e store vs)) = idbTxFails e
       \<and> idbStores (snd (idbBulkPut e store vs))
           = (if fst (getDB e) = Inr () \<and> \<not> idbTxFails e
              then (idbStores e)(store := snd (put_each store vs (idbStores e store)))
              else idbStores e)"
  by (cases "fst (getDB e)") (simp_all add: idbBulkPut_eq put_each_fits [OF assms])

lemma put_each_Cons_fits:
  "fits store v \<Longrightarrow>
   snd (put_each store (v # vs) xs) = snd (put_each store vs (snd (put_each store [v] xs)))"
  using os_put_fits [of store v xs] by auto

lemma put_in_order_obs:
  assumes "hasIndexedDB e" and "\<forall>v\<in>set vs. fits store v"
  shows "hasIndexedDB (put_in_order e store vs)
       \<and> fst (getDB (put_in_order e store vs)) = fst (getDB e)
       \<and> idbReadFails (put_in_order e store vs) = idbReadFails e
       \<and> idbTxFails (put_in_order e store vs) = idbTxFails e
       \<and> idbStores (put_in_order e store vs)
           = (if fst (getDB e) = Inr () \<and> \<not> idbTxFails e
              then (idbStores e)(store := snd (put_each store vs (idbStores e store)))
              else idbStores e)"
  using assms
proof (induction vs arbitrary: e)
  case Nil
  then show ?case by simp
next
  case (Cons v vs)
  let ?e1 = "snd (idbPut e store v)"
  have v: "fits store v" and vs: "\<forall>v\<in>set vs. fits store v"
    using Cons.prems by simp_all
  have unfold: "put_in_order e store (v # vs) = put_in_order ?e1 store vs"
    using Cons.prems(1) by (simp add: storage_put_def)
  from idbPut_obs [OF v, of e]
  have s1: "hasIndexedDB ?e1 = hasIndexedDB e" and s2: "fst (getDB ?e1) = fst (getDB e)"
    and s3: "idbReadFails ?e1 = idbReadFails e" and s4: "idbTxFails ?e1 = idbTxFails e"
    and s5: "idbStores ?e1
           = (if fst (getDB e) = Inr () \<and> \<not> idbTxFails e
              then (idbStores e)(store := snd (put_each store [v] (idbStores e store)))
              else idbStores e)"
    by blast+
  have h1: "hasIndexedDB ?e1" using s1 Cons.prems(1) by simp
  from Cons.IH [OF h1 vs]
  have i1: "hasIndexedDB (put_in_order ?e1 store vs)"
    and i2: "fst (getDB (put_in_order ?e1 store vs)) = fst (getDB ?e1)"
    and i3: "idbReadFails (put_in_order ?e1 store vs) = idbReadFails ?e1"
    and i4: "idbTxFails (put_in_order ?e1 store vs) = idbTxFails ?e1"
    and i5: "idbStores (put_in_order ?e1 store vs)
           = (if fst (getDB ?e1) = Inr () \<and> \<not> idbTxFails ?e1
              then (idbStores ?e1)(store := snd (put_each store vs (idbStores ?e1 store)))
              else idbStores ?e1)"
    by blast+
  have "idbStores (put_in_order ?e1 store vs)
           = (if fst (getDB e) = Inr () \<and> \<not> idbTxFails e
              then (idbStores e)(store := snd (put_each store (v # vs) (idbStores e store)))
              else idbStores e)"
  proof (cases "fst (getDB e) = Inr () \<and> \<not> idbTxFails e")
    case True
    then have "idbStores ?e1 = (idbStores e)(store := snd (put_each store [v] (idbStores e store)))"
      using s5 by (simp del: put_each.simps)
    then show ?thesis
      using True i5 s2 s4 by (simp add: put_each_Cons_fits [OF v, where vs = vs] del: put_each.simps)
  next
    case False
    then have "idbStores ?e1 = idbStores e" using s5 by (auto simp del: put_each.simps)
    then show ?thesis using False i5 s2 s4 by (auto simp del: put_each.simps)
  qed
  then show ?case
    unfolding unfold using i1 i2 i3 i4 s2 s3 s4 by simp
qed

section \<open>bulkPut against a sequence of puts\<close>

lemma idb_bulkPut_as_puts:
  assumes "hasIndexedDB e" and "\<forall>v\<in>set vs. fits store v"
  shows "fst (storage_getAll (snd (storage_bulkPut e store vs)) store)
       = fst (storage_getAll (put_in_order e store vs) store)"
proof -
  have b: "snd (storage_bulkPut e store vs) = snd (idbBulkPut e store vs)"
    using assms(1) by (simp add: storage_bulkPut_def)
  note bo = idbBulkPut_obs [OF assms(2), of e]
  note po = put_in_order_obs [OF assms]
  have hb: "hasIndexedDB (snd (idbBulkPut e store vs))" using bo assms(1) by simp
  have hp: "hasIndexedDB (put_in_order e store vs)" using po by simp
  show ?thesis
    unfolding b idb_getAll_obs [OF hb] idb_getAll_obs [OF hp] using bo po
    by (simp split: sum.splits)
qed

lemma put_in_order_flat:
  assumes "isBrowser e" and "\<not> hasIndexedDB e" and "json_roundtrip e"
  shows "isBrowser (put_in_order e store vs) \<and> \<not> hasIndexedDB (put_in_order e store vs)
       \<and> readFromLocalStorage (put_in_order e store vs) store
           = foldl (\<lambda>xs v. put_current store v xs) (readFromLocalStorage e store) vs"
  using assms
proof (induction vs arbitrary: e)
  case Nil
  then show ?case by simp
next
  case (Cons v vs)
  let ?e1 = "setItem (lsKeys store) (JSON_stringify e (put_current store v (readFromLocalStorage e store))) e"
  have p: "snd (storage_put e store v) = ?e1"
    using Cons.prems by (simp add: flat_put)
  have r: "readFromLocalStorage ?e1 store = put_current store v (readFromLocalStorage e store)"
    using Cons.prems by (simp add: read_setItem_same)
  have "isBrowser ?e1" "\<not> hasIndexedDB ?e1" "json_roundtrip ?e1"
    using Cons.prems by simp_all
  from Cons.IH [OF this] show ?case
    by (simp add: p r)
qed

lemma put_current_fresh:
  "\<forall>x\<in>set xs. getKeyValue store x \<noteq> getKeyValue store v \<Longrightarrow> put_current store v xs = xs @ [v]"
  by (simp add: put_current_def findIndex_None_iff [THEN iffD2])

lemma foldl_put_current_fresh:
  "distinct (map (getKeyValue store) vs) \<Longrightarrow>
   \<forall>x\<in>set cur. getKeyValue store x \<notin> getKeyValue store ` set vs \<Longrightarrow>
   foldl (\<lambda>xs v. put_current store v xs) cur vs = cur @ vs"
proof (induction vs arbitrary: cur)
  case Nil
  then show ?case by simp
next
  case (Cons v vs)
  have f: "put_current store v cur = cur @ [v]"
    using Cons.prems(2) by (intro put_current_fresh) auto
  have "foldl (\<lambda>xs v. put_current store v xs) (cur @ [v]) vs = (cur @ [v]) @ vs"
    using Cons.prems by (intro Cons.IH) auto
  then show ?case by (simp add: f)
qed

text \<open>
  C6, as amended. On the structured backend, for records of the store's kind,
  \<^verbatim>\<open>bulkPut(kind, records)\<close> leaves \<^verbatim>\<open>getAll(kind)\<close> resolving to what it resolves to after
  \<^verbatim>\<open>put(kind, r)\<close> for each record in order, faults of the engine included. On the flat
  backend \<^verbatim>\<open>bulkPut\<close> succeeds and overwrites the collection: \<^verbatim>\<open>getAll\<close> then gives exactly the
  records passed, which is what the puts in order give when the collection was empty and
  the records' keys are pairwise distinct.
\<close>

theorem bulkPut_as_puts:
  "(hasIndexedDB e \<and> (\<forall>v\<in>set vs. fits store v) \<longrightarrow>
      fst (storage_getAll (snd (storage_bulkPut e store vs)) store)
        = fst (storage_getAll (put_in_order e store vs) store))
   \<and> (isBrowser e \<and> \<not> hasIndexedDB e \<and> json_roundtrip e \<longrightarrow>
      fst (storage_bulkPut e store vs) = Inr ()
      \<and> fst (storage_getAll (snd (storage_bulkPut e store vs)) store) = Inr vs
      \<and> (readFromLocalStorage e store = [] \<and> distinct (map (getKeyValue store) vs) \<longrightarrow>
           fst (storage_getAll (put_in_order e store vs) store) = Inr vs))"
proof (intro conjI impI)
  assume "hasIndexedDB e \<and> (\<forall>v\<in>set vs. fits store v)"
  then show "fst (storage_getAll (snd (storage_bulkPut e store vs)) store)
        = fst (storage_getAll (put_in_order e store vs) store)"
    by (simp add: idb_bulkPut_as_puts)
next
  assume a: "isBrowser e \<and> \<not> hasIndexedDB e \<and> json_roundtrip e"
  then show "fst (storage_bulkPut e store vs) = Inr ()"
    by (simp add: flat_bulkPut)
  from a show "fst (storage_getAll (snd (storage_bulkPut e store vs)) store) = Inr vs"
    by (simp add: flat_bulkPut flat_getAll read_setItem_same)
  assume b: "readFromLocalStorage e store = [] \<and> distinct (map (getKeyValue store) vs)"
  from a have "isBrowser e" "\<not> hasIndexedDB e" "json_roundtrip e" by simp_all
  from put_in_order_flat [OF this, of store vs] b
  show "fst (storage_getAll (put_in_order e store vs) store) = Inr vs"
    by (simp add: flat_getAll foldl_put_current_fresh)
qed

lemma idb_context_simps [simp]:
  "isBrowser idb_context" "hasIndexedDB idb_context"
  by (simp_all add: idb_context_def flat_context_def hasIndexedDB_def)

lemma example_keys:
  "getKeyValue flavors Chocolate50 = Some (str ''Chocolate'')"
  "getKeyValue flavors Chocolate60 = Some (str ''Chocolate'')"
  "getKeyValue flavors Chocolate70 = Some (str ''Chocolate'')"
  "getKeyValue flavors chocolate99 = Some (str ''chocolate'')"
  "getKeyValue flavors Morango55 = Some (str ''Morango'')"
  by (simp_all add: getKeyValue_def Chocolate50_def Chocolate60_def Chocolate70_def
        chocolate99_def Morango55_def)

lemma example_fits:
  "fits flavors Chocolate50" "fits flavors Chocolate60" "fits flavors Chocolate70"
  "fits flavors chocolate99" "fits flavors Morango55"
  by (simp_all add: Chocolate50_def Chocolate60_def Chocolate70_def chocolate99_def Morango55_def)

lemma read_flat_context [simp]: "readFromLocalStorage flat_context store = []"
  by (simp add: readFromLocalStorage_def flat_context_def)

theorem bulkPut_as_puts_witness:
  "(hasIndexedDB idb_context \<and> fits flavors Chocolate50 \<and> fits flavors Morango55)
   \<and> fst (storage_getAll (snd (storage_bulkPut idb_context flavors [Chocolate50, Morango55])) flavors)
        = fst (storage_getAll (put_in_order idb_context flavors [Chocolate50, Morango55]) flavors)
   \<and> (isBrowser flat_context \<and> \<not> hasIndexedDB flat_context \<and> json_roundtrip flat_context)
   \<and> fst (storage_bulkPut flat_context flavors [Chocolate50, Morango55]) = Inr ()
   \<and> fst (storage_getAll (snd (storage_bulkPut flat_context flavors [Chocolate50, Morango55])) flavors)
        = Inr [Chocolate50, Morango55]
   \<and> (readFromLocalStorage flat_context flavors = []
        \<and> distinct (map (getKeyValue flavors) [Chocolate50, Morango55]))
   \<and> fst (storage_getAll (put_in_order flat_context flavors [Chocolate50, Morango55]) flavors)
        = Inr [Chocolate50, Morango55]"
  using bulkPut_as_puts [of idb_context "[Chocolate50, Morango55]" flavors]
        bulkPut_as_puts [of flat_context "[Chocolate50, Morango55]" flavors]
  by (simp add: example_keys example_fits del: put_in_order.simps)

text \<open>
  C6 as stated fails on the flat backend: with one flavor stored, \<^verbatim>\<open>bulkPut\<close> of another
  flavor leaves only the new one, where \<^verbatim>\<open>put\<close> keeps both.
\<close>

theorem flat_bulkPut_counterexample:
  "fst (storage_getAll
         (snd (storage_bulkPut (snd (storage_put flat_context flavors Chocolate50)) flavors [Morango55]))
         flavors) = Inr [Morango55]
   \<and> fst (storage_getAll
         (put_in_order (snd (storage_put flat_context flavors Chocolate50)) flavors [Morango55])
         flavors) = Inr [Chocolate50, Morango55]"
proof -
  let ?e0 = "setItem (lsKeys flavors) (JSON_stringify flat_context [Chocolate50]) flat_context"
  have p0: "snd (storage_put flat_context flavors Chocolate50) = ?e0"
    by (simp add: flat_put put_current_def)
  have e0: "isBrowser ?e0" "\<not> hasIndexedDB ?e0" "json_roundtrip ?e0"
    by simp_all
  have r0: "readFromLocalStorage ?e0 flavors = [Chocolate50]"
    by (simp add: read_setItem_same)
  have "fst (storage_getAll (snd (storage_bulkPut ?e0 flavors [Morango55])) flavors) = Inr [Morango55]"
    using e0 read_setItem_same [of ?e0 flavors "[Morango55]"]
    by (simp add: flat_bulkPut flat_getAll)
  moreover have "fst (storage_getAll (put_in_order ?e0 flavors [Morango55]) flavors)
                   = Inr [Chocolate50, Morango55]"
    using put_in_order_flat [OF e0, of flavors "[Morango55]"]
    by (simp add: flat_getAll r0 put_current_def example_keys del: put_in_order.simps)
  ultimately show ?thesis by (simp only: p0) 
qed

section \<open>Operations on a working backend\<close>

lemma getKeyValue_keyPath: "getKeyValue store x = getProp (keyPath store) x"
  by (cases store) (simp_all add: getKeyValue_def)

lemma os_delete_eq: "os_delete store k xs = delete_current store k xs"
  by (simp add: os_delete_def delete_current_def getKeyValue_keyPath)

lemma getAll_ok: "backend_ok e \<Longrightarrow> fst (storage_getAll e store) = Inr (stored e store)"
  by (simp add: backend_ok_def stored_def idb_getAll_obs flat_getAll split: if_splits)

lemma backend_ok_setItem [simp]:
  "backend_ok (setItem k raw e) = backend_ok e"
  by (simp add: backend_ok_def) (simp add: setItem_def getDB_def hasIndexedDB_def Let_def split: option.splits)

lemma stored_flat_not_browser: "\<not> hasIndexedDB e \<Longrightarrow> \<not> isBrowser e \<Longrightarrow> stored e store = []"
  by (simp add: stored_def read_not_browser)

lemma storage_delete_ok:
  assumes "backend_ok e"
  shows "fst (storage_delete e store k) = Inr ()"
    and "backend_ok (snd (storage_delete e store k))"
    and "hasIndexedDB (snd (storage_delete e store k)) = hasIndexedDB e"
    and "isBrowser (snd (storage_delete e store k)) = isBrowser e"
    and "stored (snd (storage_delete e store k)) store = delete_current store k (stored e store)"
    and "s \<noteq> store \<Longrightarrow> stored (snd (storage_delete e store k)) s = stored e s"
proof -
  consider (idb) "hasIndexedDB e" | (flat) "\<not> hasIndexedDB e" "isBrowser e"
    | (none) "\<not> hasIndexedDB e" "\<not> isBrowser e" by blast
  then have "fst (storage_delete e store k) = Inr ()
    \<and> backend_ok (snd (storage_delete e store k))
    \<and> hasIndexedDB (snd (storage_delete e store k)) = hasIndexedDB e
    \<and> isBrowser (snd (storage_delete e store k)) = isBrowser e
    \<and> stored (snd (storage_delete e store k)) store = delete_current store k (stored e store)
    \<and> (s \<noteq> store \<longrightarrow> stored (snd (storage_delete e store k)) s = stored e s)"
  proof cases
    case idb
    with assms have ok: "fst (getDB e) = Inr ()" "\<not> idbReadFails e" "\<not> idbTxFails e"
      by (simp_all add: backend_ok_def)
    have d: "storage_delete e store k
           = (Inr (), (snd (getDB e))\<lparr>idbStores :=
                 (idbStores e)(store := os_delete store k (idbStores e store))\<rparr>)"
      using idb ok by (simp add: storage_delete_def idbDelete_eq)
    show ?thesis
      using idb ok by (simp add: d backend_ok_def stored_def os_delete_eq)
  next
    case flat
    with assms have rt: "json_roundtrip e" by (simp add: backend_ok_def)
    show ?thesis
      using flat rt assms
      by (simp add: flat_delete stored_def read_setItem_same read_setItem_other)
  next
    case none
    then show ?thesis
      using assms by (simp add: storage_delete_def stored_def read_not_browser delete_current_def)
  qed
  then show "fst (storage_delete e store k) = Inr ()"
    and "backend_ok (snd (storage_delete e store k))"
    and "hasIndexedDB (snd (storage_delete e store k)) = hasIndexedDB e"
    and "isBrowser (snd (storage_delete e store k)) = isBrowser e"
    and "stored (snd (storage_delete e store k)) store = delete_current store k (stored e store)"
    and "s \<noteq> store \<Longrightarrow> stored (snd (storage_delete e store k)) s = stored e s"
    by simp_all
qed

text \<open>
  C7. With a working backend, a stored customer C and a stored order whose \<^verbatim>\<open>clientId\<close> is
  C's id: removing C through \<^verbatim>\<open>handleRemoveClient\<close> succeeds and sets no error message,
  \<^verbatim>\<open>getAll('clients')\<close> afterwards has no record with C's id and keeps the other customers,
  and \<^verbatim>\<open>getAll('orders')\<close> resolves to the same orders as before, the order among them.
\<close>

theorem delete_client_keeps_orders:
  assumes "backend_ok e"
    and "fst (storage_getAll e clients) = Inr cs" and "ClientItem C \<in> set cs"
    and "fst (storage_getAll e orders) = Inr os" and "OrderItem ord \<in> set os"
    and "clientId ord = Some (id_client C)"
  shows "\<exists>v' e' cs'.
           handleRemoveClient e v (id_client C) = (v', e')
         \<and> fst (storage_delete e clients (id_client C)) = Inr ()
         \<and> message v' = message v
         \<and> fst (storage_getAll e' clients) = Inr cs'
         \<and> ClientItem C \<notin> set cs'
         \<and> count_key clients (Some (id_client C)) cs' = 0
         \<and> others clients (Some (id_client C)) cs' = others clients (Some (id_client C)) cs
         \<and> fst (storage_getAll e' orders) = Inr os
         \<and> OrderItem ord \<in> set os"
proof -
  let ?k = "id_client C"
  let ?cs' = "delete_current clients ?k cs"
  obtain r e' where u: "storage_delete e clients ?k = (r, e')"
    by (cases "storage_delete e clients ?k")
  note d = storage_delete_ok(1-5) [OF assms(1), where store = clients and k = ?k, unfolded u fst_conv snd_conv]
    storage_delete_ok(6) [OF assms(1), where store = clients and k = ?k and s = orders,
      unfolded u fst_conv snd_conv]
  have cs: "stored e clients = cs" and os: "stored e orders = os"
    using assms(2,4) getAll_ok [OF assms(1)] by simp_all
  have h: "handleRemoveClient e v ?k
         = (v\<lparr>saving := True,
              clients_state := filter (\<lambda>c. getProp ''id'' c \<noteq> Some ?k) (clients_state (v\<lparr>saving := True\<rparr>)),
              saving := False\<rparr>, e')"
    using d(1) by (simp add: handleRemoveClient_def Let_def u)
  have g1: "fst (storage_getAll e' clients) = Inr ?cs'"
    using getAll_ok [OF d(2)] d(5) cs by simp
  have g2: "fst (storage_getAll e' orders) = Inr os"
    using getAll_ok [OF d(2)] d(6) os by simp
  have n: "ClientItem C \<notin> set ?cs'"
    by (simp add: delete_current_def getKeyValue_def)
  have c: "count_key clients (Some ?k) ?cs' = 0"
    by simp
  have o: "others clients (Some ?k) ?cs' = others clients (Some ?k) cs"
    by (simp add: others_def delete_current_def)
  show ?thesis
    apply (rule exI [of _ "fst (handleRemoveClient e v ?k)"])
    apply (rule exI [of _ e'])
    apply (rule exI [of _ ?cs'])
    using d(1) g1 g2 n c o assms(5) by (simp add: h u)
qed

lemma backend_ok_flat_context [simp]: "backend_ok flat_context"
  by (simp add: backend_ok_def)

lemma backend_ok_idb_context [simp]: "backend_ok idb_context"
  by (simp add: backend_ok_def)
     (simp add: idb_context_def flat_context_def getDB_def hasIndexedDB_def Let_def)

lemma flat_ana_facts:
  "backend_ok flat_ana" "\<not> hasIndexedDB flat_ana"
  "stored flat_ana clients = [ClientItem client_ana]"
  "stored flat_ana orders = [OrderItem order_ana]"
proof -
  show f: "\<not> hasIndexedDB flat_ana"
    by (simp add: flat_ana_def flat_context_def hasIndexedDB_def)
  have "json_roundtrip flat_ana"
    by (simp add: json_roundtrip_def flat_ana_def flat_context_def unary_roundtrip)
  with f show "backend_ok flat_ana" by (simp add: backend_ok_def)
  show "stored flat_ana clients = [ClientItem client_ana]"
    using f unary_roundtrip [of "[ClientItem client_ana]"]
    by (simp add: stored_def readFromLocalStorage_def flat_ana_def flat_context_def lsKeys.simps)
  show "stored flat_ana orders = [OrderItem order_ana]"
    using f unary_roundtrip [of "[OrderItem order_ana]"]
    by (simp add: stored_def readFromLocalStorage_def flat_ana_def flat_context_def lsKeys.simps)
qed

lemma idb_ana_facts:
  "backend_ok idb_ana" "hasIndexedDB idb_ana"
  "stored idb_ana clients = [ClientItem client_ana]"
  "stored idb_ana orders = [OrderItem order_ana]"
proof -
  show f: "hasIndexedDB idb_ana"
    by (simp add: idb_ana_def)
  show "backend_ok idb_ana"
    by (simp add: backend_ok_def f)
       (simp add: idb_ana_def idb_context_def flat_context_def getDB_def hasIndexedDB_def Let_def)
  show "stored idb_ana clients = [ClientItem client_ana]"
    using f by (simp add: stored_def) (simp add: idb_ana_def)
  show "stored idb_ana orders = [OrderItem order_ana]"
    using f by (simp add: stored_def) (simp add: idb_ana_def)
qed

theorem delete_client_keeps_orders_witness:
  "(backend_ok flat_ana
    \<and> fst (storage_getAll flat_ana clients) = Inr [ClientItem client_ana]
    \<and> ClientItem client_ana \<in> set [ClientItem client_ana]
    \<and> fst (storage_getAll flat_ana orders) = Inr [OrderItem order_ana]
    \<and> OrderItem order_ana \<in> set [OrderItem order_ana]
    \<and> clientId order_ana = Some (id_client client_ana)
    \<and> (\<exists>v' e' cs'.
           handleRemoveClient flat_ana home0 (id_client client_ana) = (v', e')
         \<and> fst (storage_delete flat_ana clients (id_client client_ana)) = Inr ()
         \<and> message v' = message home0
         \<and> fst (storage_getAll e' clients) = Inr cs'
         \<and> ClientItem client_ana \<notin> set cs'
         \<and> count_key clients (Some (id_client client_ana)) cs' = 0
         \<and> others clients (Some (id_client client_ana)) cs'
              = others clients (Some (id_client client_ana)) [ClientItem client_ana]
         \<and> fst (storage_getAll e' orders) = Inr [OrderItem order_ana]
         \<and> OrderItem order_ana \<in> set [OrderItem order_ana]))
   \<and> (backend_ok idb_ana
    \<and> fst (storage_getAll idb_ana clients) = Inr [ClientItem client_ana]
    \<and> fst (storage_getAll idb_ana orders) = Inr [OrderItem order_ana]
    \<and> (\<exists>v' e' cs'.
           handleRemoveClient idb_ana home0 (id_client client_ana) = (v', e')
         \<and> fst (storage_delete idb_ana clients (id_client client_ana)) = Inr ()
         \<and> message v' = message home0
         \<and> fst (storage_getAll e' clients) = Inr cs'
         \<and> ClientItem client_ana \<notin> set cs'
         \<and> count_key clients (Some (id_client client_ana)) cs' = 0
         \<and> others clients (Some (id_client client_ana)) cs'
              = others clients (Some (id_client client_ana)) [ClientItem client_ana]
         \<and> fst (storage_getAll e' orders) = Inr [OrderItem order_ana]
         \<and> OrderItem order_ana \<in> set [OrderItem order_ana]))"
proof -
  have c: "clientId order_ana = Some (id_client client_ana)"
    by (simp add: order_ana_def client_ana_def)
  have gf: "fst (storage_getAll flat_ana clients) = Inr [ClientItem client_ana]"
           "fst (storage_getAll flat_ana orders) = Inr [OrderItem order_ana]"
    by (simp_all add: getAll_ok flat_ana_facts)
  have gi: "fst (storage_getAll idb_ana clients) = Inr [ClientItem client_ana]"
           "fst (storage_getAll idb_ana orders) = Inr [OrderItem order_ana]"
    by (simp_all add: getAll_ok idb_ana_facts)
  from delete_client_keeps_orders [OF flat_ana_facts(1) gf(1) _ gf(2) _ c, of home0]
       delete_client_keeps_orders [OF idb_ana_facts(1) gi(1) _ gi(2) _ c, of home0]
       flat_ana_facts(1) idb_ana_facts(1) gf gi c
  show ?thesis by simp
qed

section \<open>Flavor names differing in case\<close>

lemma os_insert_mem: "v \<in> set (os_insert p k v xs)"
  by (induction xs) auto

lemma os_insert_keeps:
  "x \<in> set xs \<Longrightarrow> getProp p x \<noteq> Some k \<Longrightarrow> x \<in> set (os_insert p k v xs)"
  by (induction xs) auto

lemma put_current_keeps:
  assumes "x \<in> set xs" and "getKeyValue store x \<noteq> getKeyValue store v"
  shows "x \<in> set (put_current store v xs)"
proof -
  from assms have "x \<in> set (filter (\<lambda>x. getKeyValue store x \<noteq> getKeyValue store v) xs)"
    by simp
  then have "x \<in> set (filter (\<lambda>x. getKeyValue store x \<noteq> getKeyValue store v) (put_current store v xs))"
    by (simp only: put_current_frame)
  then show ?thesis by simp
qed

text \<open>What a put does to the collection the backend holds.\<close>

lemma storage_put_ok:
  assumes "backend_ok e" and "isBrowser e" and "getProp (keyPath store) v = Some k"
  shows "fst (storage_put e store v) = Inr ()"
    and "backend_ok (snd (storage_put e store v))"
    and "isBrowser (snd (storage_put e store v))"
    and "hasIndexedDB (snd (storage_put e store v)) = hasIndexedDB e"
    and "stored (snd (storage_put e store v)) store
           = (if hasIndexedDB e then os_insert (keyPath store) k v (stored e store)
              else put_current store v (stored e store))"
proof -
  have "fst (storage_put e store v) = Inr ()
    \<and> backend_ok (snd (storage_put e store v))
    \<and> isBrowser (snd (storage_put e store v))
    \<and> hasIndexedDB (snd (storage_put e store v)) = hasIndexedDB e
    \<and> stored (snd (storage_put e store v)) store
           = (if hasIndexedDB e then os_insert (keyPath store) k v (stored e store)
              else put_current store v (stored e store))"
  proof (cases "hasIndexedDB e")
    case True
    with assms have ok: "fst (getDB e) = Inr ()" "\<not> idbReadFails e" "\<not> idbTxFails e"
      by (simp_all add: backend_ok_def)
    have p: "storage_put e store v
           = (Inr (), (snd (getDB e))\<lparr>idbStores :=
                 (idbStores e)(store := os_insert (keyPath store) k v (idbStores e store))\<rparr>)"
      using True ok assms(3) by (simp add: storage_put_def idbPut_eq os_put_def)
    show ?thesis
      using True ok assms(2) by (simp add: p backend_ok_def stored_def)
  next
    case False
    with assms have rt: "json_roundtrip e" by (simp add: backend_ok_def)
    show ?thesis
      using False rt assms(1,2)
      by (simp add: flat_put stored_def read_setItem_same)
  qed
  then show "fst (storage_put e store v) = Inr ()"
    and "backend_ok (snd (storage_put e store v))"
    and "isBrowser (snd (storage_put e store v))"
    and "hasIndexedDB (snd (storage_put e store v)) = hasIndexedDB e"
    and "stored (snd (storage_put e store v)) store
           = (if hasIndexedDB e then os_insert (keyPath store) k v (stored e store)
              else put_current store v (stored e store))"
    by simp_all
qed

lemma example_props:
  "getProp ''name'' Chocolate50 = Some (str ''Chocolate'')"
  "getProp ''name'' chocolate99 = Some (str ''chocolate'')"
  by (simp_all add: Chocolate50_def chocolate99_def)

text \<open>
  C8. In a browser with a working backend, \<^verbatim>\<open>put('flavors', {name: "Chocolate",
  pricePerKg: 50})\<close> followed by \<^verbatim>\<open>put('flavors', {name: "chocolate", pricePerKg: 99})\<close>
  both succeed and \<^verbatim>\<open>getAll('flavors')\<close> then holds both records, whose keys differ; from
  an empty collection it resolves to exactly these two entries.
\<close>

theorem flavor_keys_case_sensitive:
  assumes "isBrowser e" and "backend_ok e"
  shows "\<exists>e1 e2 xs.
           storage_put e flavors Chocolate50 = (Inr (), e1)
         \<and> storage_put e1 flavors chocolate99 = (Inr (), e2)
         \<and> fst (storage_getAll e2 flavors) = Inr xs
         \<and> Chocolate50 \<in> set xs \<and> chocolate99 \<in> set xs
         \<and> getKeyValue flavors Chocolate50 \<noteq> getKeyValue flavors chocolate99
         \<and> (fst (storage_getAll e flavors) = Inr [] \<longrightarrow> xs = [Chocolate50, chocolate99])"
proof -
  obtain r1 e1 where p1: "storage_put e flavors Chocolate50 = (r1, e1)"
    by (cases "storage_put e flavors Chocolate50")
  obtain r2 e2 where p2: "storage_put e1 flavors chocolate99 = (r2, e2)"
    by (cases "storage_put e1 flavors chocolate99")
  have k1: "getProp (keyPath flavors) Chocolate50 = Some (str ''Chocolate'')"
    and k2: "getProp (keyPath flavors) chocolate99 = Some (str ''chocolate'')"
    by (simp_all add: Chocolate50_def chocolate99_def)
  note a = storage_put_ok [OF assms(2,1) k1, unfolded p1 fst_conv snd_conv]
  note b = storage_put_ok [OF a(2,3) k2, unfolded p2 fst_conv snd_conv]
  let ?xs = "stored e2 flavors"
  have g: "fst (storage_getAll e2 flavors) = Inr ?xs"
    by (rule getAll_ok [OF b(2)])
  have m1: "Chocolate50 \<in> set (stored e1 flavors)"
    using a(5) by (simp add: os_insert_mem put_current_mem)
  have m1': "Chocolate50 \<in> set ?xs"
    using b(5) m1 a(4)
    by (auto simp: example_keys example_props intro!: os_insert_keeps put_current_keeps)
  have m2: "chocolate99 \<in> set ?xs"
    using b(5) by (simp add: os_insert_mem put_current_mem)
  have d: "getKeyValue flavors Chocolate50 \<noteq> getKeyValue flavors chocolate99"
    by (simp add: example_keys)
  have emp: "fst (storage_getAll e flavors) = Inr [] \<longrightarrow> ?xs = [Chocolate50, chocolate99]"
  proof
    assume "fst (storage_getAll e flavors) = Inr []"
    then have "stored e flavors = []"
      using getAll_ok [OF assms(2), of flavors] by simp
    then show "?xs = [Chocolate50, chocolate99]"
      using a(4,5) b(5)
      by (auto simp: put_current_def example_keys example_props)
  qed
  show ?thesis
    apply (rule exI [of _ e1], rule exI [of _ e2], rule exI [of _ ?xs])
    using a(1) b(1) g m1' m2 d emp by (simp add: p1 p2)
qed

theorem flavor_keys_case_sensitive_witness:
  "(isBrowser flat_context \<and> backend_ok flat_context
    \<and> (\<exists>e1 e2 xs.
           storage_put flat_context flavors Chocolate50 = (Inr (), e1)
         \<and> storage_put e1 flavors chocolate99 = (Inr (), e2)
         \<and> fst (storage_getAll e2 flavors) = Inr xs
         \<and> Chocolate50 \<in> set xs \<and> chocolate99 \<in> set xs
         \<and> getKeyValue flavors Chocolate50 \<noteq> getKeyValue flavors chocolate99
         \<and> fst (storage_getAll flat_context flavors) = Inr []
         \<and> xs = [Chocolate50, chocolate99]))
   \<and> (isBrowser idb_context \<and> backend_ok idb_context
    \<and> (\<exists>e1 e2 xs.
           storage_put idb_context flavors Chocolate50 = (Inr (), e1)
         \<and> storage_put e1 flavors chocolate99 = (Inr (), e2)
         \<and> fst (storage_getAll e2 flavors) = Inr xs
         \<and> Chocolate50 \<in> set xs \<and> chocolate99 \<in> set xs
         \<and> getKeyValue flavors Chocolate50 \<noteq> getKeyValue flavors chocolate99
         \<and> fst (storage_getAll idb_context flavors) = Inr []
         \<and> xs = [Chocolate50, chocolate99]))"
proof -
  have f: "fst (storage_getAll flat_context flavors) = Inr []"
    by (simp add: flat_getAll)
  have i: "fst (storage_getAll idb_context flavors) = Inr []"
    by (simp add: getAll_ok stored_def) (simp add: idb_context_def flat_context_def)
  from flavor_keys_case_sensitive [of flat_context] flavor_keys_case_sensitive [of idb_context] f i
  show ?thesis by simp
qed

section \<open>The dashboard's order removal without IndexedDB\<close>

lemma try_publish_eq:
  "try_publish b m e = (if b \<and> \<not> bcThrows e then e\<lparr>bcPosted := bcPosted e @ [m]\<rparr> else e)"
  by (simp add: try_publish_def postMessage_def)

lemma read_cong:
  "isBrowser a = isBrowser b \<Longrightarrow> localStorage a = localStorage b \<Longrightarrow>
   JSON_parse a = JSON_parse b \<Longrightarrow> readFromLocalStorage a store = readFromLocalStorage b store"
  by (simp add: readFromLocalStorage_def split: option.splits)

lemma read_bcPosted_update [simp]:
  "readFromLocalStorage (e\<lparr>bcPosted := ms\<rparr>) store = readFromLocalStorage e store"
  by (rule read_cong) simp_all

lemma hasIndexedDB_bcPosted_update [simp]:
  "hasIndexedDB (e\<lparr>bcPosted := ms\<rparr>) = hasIndexedDB e"
  by (simp add: hasIndexedDB_def)

text \<open>
  C5. In a browser without IndexedDB, with one order in the flat backend and shown by the
  dashboard: \<^verbatim>\<open>removeOrder\<close> calls \<^verbatim>\<open>idbDelete\<close>, not \<^verbatim>\<open>storageDelete\<close>, so \<^verbatim>\<open>getDB\<close> throws, the
  view gets the error message \<^verbatim>\<open>Falha ao remover.\<close>, and the order stays stored and shown.
  The routed \<^verbatim>\<open>storageDelete\<close> of the same file succeeds in this context and removes it.
\<close>

theorem removeOrder_without_IndexedDB:
  "\<not> hasIndexedDB flat_ana
   \<and> fst (storageGetAll flat_ana orders) = Inr [OrderItem order_ana]
   \<and> removeOrder flat_ana True (dashboard0\<lparr>orders_state := [OrderItem order_ana]\<rparr>) (id_order order_ana)
       = (dashboard0\<lparr>orders_state := [OrderItem order_ana],
                     message_d := Some (toast_error, ''Falha ao remover.'')\<rparr>, flat_ana)
   \<and> fst (storageDelete flat_ana orders (id_order order_ana)) = Inr ()
   \<and> fst (storageGetAll (snd (storageDelete flat_ana orders (id_order order_ana))) orders) = Inr []"
proof -
  have f: "\<not> hasIndexedDB flat_ana" "isBrowser flat_ana" "json_roundtrip flat_ana"
    using flat_ana_facts(1,2) by (simp_all add: backend_ok_def flat_ana_def)
  have r: "readFromLocalStorage flat_ana orders = [OrderItem order_ana]"
    using flat_ana_facts(4) f(1) by (simp add: stored_def)
  have g: "fst (storageGetAll flat_ana orders) = Inr [OrderItem order_ana]"
    using f(1) r by (simp add: storageGetAll_def)
  have i: "idbDelete flat_ana orders (id_order order_ana) = (Inl IDBUnsupported, flat_ana)"
    using f(1) by (simp add: idbDelete_def getDB_def)
  have ro: "removeOrder flat_ana True (dashboard0\<lparr>orders_state := [OrderItem order_ana]\<rparr>) (id_order order_ana)
       = (dashboard0\<lparr>orders_state := [OrderItem order_ana],
                     message_d := Some (toast_error, ''Falha ao remover.'')\<rparr>, flat_ana)"
    by (simp add: removeOrder_def i dashboard0_def)
  let ?e1 = "setItem (lsKeys orders) (JSON_stringify flat_ana []) flat_ana"
  have d: "storageDelete flat_ana orders (id_order order_ana)
         = (Inr (), try_publish (bcSupported ?e1) (orders_changed (Some (id_order order_ana))) ?e1)"
    using f by (simp add: storageDelete_def r Let_def)
  have rd: "readFromLocalStorage (try_publish b m ?e1) orders = []" for b m
    using read_setItem_same [OF f(2,3), of orders "[]"] by (simp add: try_publish_eq)
  have h: "\<not> hasIndexedDB (try_publish b m ?e1)" for b m
    using f(1) by (simp add: try_publish_eq)
  have g2: "fst (storageGetAll (snd (storageDelete flat_ana orders (id_order order_ana))) orders) = Inr []"
    by (simp add: d storageGetAll_def h rd)
  show ?thesis using f(1) g ro d g2 by simp
qed

section \<open>Notification after the write\<close>

lemma idbPut_channel:
  "bcPosted (snd (idbPut e store v)) = bcPosted e
   \<and> bcSupported (snd (idbPut e store v)) = bcSupported e
   \<and> bcThrows (snd (idbPut e store v)) = bcThrows e
   \<and> isBrowser (snd (idbPut e store v)) = isBrowser e"
  by (simp add: idbPut_eq split: sum.splits)

lemma storage_put_channel:
  "bcPosted (snd (storage_put e store v)) = bcPosted e
   \<and> bcSupported (snd (storage_put e store v)) = bcSupported e
   \<and> bcThrows (snd (storage_put e store v)) = bcThrows e
   \<and> isBrowser (snd (storage_put e store v)) = isBrowser e"
  using idbPut_channel [of e store v]
  by (simp add: storage_put_def Let_def) (simp add: setItem_def)

text \<open>
  C9. \<^verbatim>\<open>saveOrder\<close> fails exactly when the write of the new order fails, and then nothing is
  posted; when the write succeeds it returns the order, and the context it leaves is the
  one the write left plus at most the one message \<^verbatim>\<open>orders_changed\<close>, which is posted only
  where the channel exists and does not throw. The dashboard's \<^verbatim>\<open>storagePut\<close> is the plain
  \<^verbatim>\<open>idbPut\<close> on the structured backend and posts nothing; on the flat backend it succeeds
  and leaves the context of the flat write plus at most that one message.
\<close>

theorem notify_after_write:
  "(\<forall>err. fst (storage_put e orders (OrderItem (new_order f oid now))) = Inl err \<longrightarrow>
       fst (saveOrder e f oid now) = Inl err
     \<and> snd (saveOrder e f oid now) = snd (storage_put e orders (OrderItem (new_order f oid now)))
     \<and> bcPosted (snd (saveOrder e f oid now)) = bcPosted e)
   \<and> (fst (storage_put e orders (OrderItem (new_order f oid now))) = Inr () \<longrightarrow>
       fst (saveOrder e f oid now) = Inr (new_order f oid now)
     \<and> snd (saveOrder e f oid now)
         = (snd (storage_put e orders (OrderItem (new_order f oid now))))
             \<lparr>bcPosted := bcPosted e @
                (if isBrowser e \<and> bcSupported e \<and> \<not> bcThrows e
                 then [orders_changed (Some oid)] else [])\<rparr>)
   \<and> (hasIndexedDB e \<longrightarrow>
       storagePut e orders v = idbPut e orders v
     \<and> bcPosted (snd (storagePut e orders v)) = bcPosted e)
   \<and> (\<not> hasIndexedDB e \<longrightarrow>
       fst (storagePut e orders v) = Inr ()
     \<and> snd (storagePut e orders v)
         = (snd (storage_put e orders v))
             \<lparr>bcPosted := bcPosted e @
                (if isBrowser e \<and> bcSupported e \<and> \<not> bcThrows e
                 then [orders_changed (getProp ''id'' v)] else [])\<rparr>)"
proof (intro conjI allI impI)
  let ?ord = "new_order f oid now"
  note ch = storage_put_channel [of e orders "OrderItem ?ord"]
  { fix err
    assume a: "fst (storage_put e orders (OrderItem ?ord)) = Inl err"
    then obtain e1 where p: "storage_put e orders (OrderItem ?ord) = (Inl err, e1)"
      by (cases "storage_put e orders (OrderItem ?ord)") auto
    show "fst (saveOrder e f oid now) = Inl err"
      by (simp add: saveOrder_def Let_def p)
    show "snd (saveOrder e f oid now) = snd (storage_put e orders (OrderItem ?ord))"
      by (simp add: saveOrder_def Let_def p)
    show "bcPosted (snd (saveOrder e f oid now)) = bcPosted e"
      using ch by (simp add: saveOrder_def Let_def p)
  }
  { assume a: "fst (storage_put e orders (OrderItem ?ord)) = Inr ()"
    then obtain e1 where p: "storage_put e orders (OrderItem ?ord) = (Inr (), e1)"
      by (cases "storage_put e orders (OrderItem ?ord)") auto
    show "fst (saveOrder e f oid now) = Inr ?ord"
      by (simp add: saveOrder_def Let_def p)
    have "id_order ?ord = oid" by (simp add: new_order_def)
    then show "snd (saveOrder e f oid now)
         = (snd (storage_put e orders (OrderItem ?ord)))
             \<lparr>bcPosted := bcPosted e @
                (if isBrowser e \<and> bcSupported e \<and> \<not> bcThrows e
                 then [orders_changed (Some oid)] else [])\<rparr>"
      using ch by (simp add: saveOrder_def Let_def p try_publish_eq)
  }
  { assume h: "hasIndexedDB e"
    then show "storagePut e orders v = idbPut e orders v"
      by (simp add: storagePut_def)
    with idbPut_channel [of e orders v]
    show "bcPosted (snd (storagePut e orders v)) = bcPosted e"
      by simp
  }
  { assume h: "\<not> hasIndexedDB e"
    then show "fst (storagePut e orders v) = Inr ()"
      by (simp add: storagePut_def Let_def)
    have k: "getKeyValue orders x = getProp ''id'' x" for x
      by (simp add: getKeyValue_def)
    from h show "snd (storagePut e orders v)
         = (snd (storage_put e orders v))
             \<lparr>bcPosted := bcPosted e @
                (if isBrowser e \<and> bcSupported e \<and> \<not> bcThrows e
                 then [orders_changed (getProp ''id'' v)] else [])\<rparr>"
      by (simp add: storagePut_def storage_put_def Let_def try_publish_eq put_current_def k)
         (auto simp: setItem_def)
  }
qed

theorem notify_after_write_witness:
  "fst (storage_put (idb_context\<lparr>idbTxFails := True\<rparr>) orders
          (OrderItem (new_order form_ana (str ''lq1x_a1b2c3'') (str ''2025-01-15T12:00:00.000Z''))))
     = Inl TransactionFailed
   \<and> fst (saveOrder (idb_context\<lparr>idbTxFails := True\<rparr>) form_ana (str ''lq1x_a1b2c3'')
            (str ''2025-01-15T12:00:00.000Z'')) = Inl TransactionFailed
   \<and> bcPosted (snd (saveOrder (idb_context\<lparr>idbTxFails := True\<rparr>) form_ana (str ''lq1x_a1b2c3'')
            (str ''2025-01-15T12:00:00.000Z''))) = bcPosted (idb_context\<lparr>idbTxFails := True\<rparr>)
   \<and> fst (storage_put (flat_context\<lparr>bcThrows := True\<rparr>) orders
          (OrderItem (new_order form_ana (str ''lq1x_a1b2c3'') (str ''2025-01-15T12:00:00.000Z'')))) = Inr ()
   \<and> fst (saveOrder (flat_context\<lparr>bcThrows := True\<rparr>) form_ana (str ''lq1x_a1b2c3'')
            (str ''2025-01-15T12:00:00.000Z''))
       = Inr (new_order form_ana (str ''lq1x_a1b2c3'') (str ''2025-01-15T12:00:00.000Z''))
   \<and> bcPosted (snd (saveOrder (flat_context\<lparr>bcThrows := True\<rparr>) form_ana (str ''lq1x_a1b2c3'')
            (str ''2025-01-15T12:00:00.000Z''))) = []
   \<and> hasIndexedDB idb_context
   \<and> storagePut idb_context orders (OrderItem order_ana) = idbPut idb_context orders (OrderItem order_ana)
   \<and> \<not> hasIndexedDB flat_context
   \<and> fst (storagePut flat_context orders (OrderItem order_ana)) = Inr ()
   \<and> bcPosted (snd (storagePut flat_context orders (OrderItem order_ana)))
       = [orders_changed (Some (str ''lq1x_a1b2c3''))]"
proof -
  let ?ord = "new_order form_ana (str ''lq1x_a1b2c3'') (str ''2025-01-15T12:00:00.000Z'')"
  let ?bad = "idb_context\<lparr>idbTxFails := True\<rparr>"
  let ?mute = "flat_context\<lparr>bcThrows := True\<rparr>"
  have b: "hasIndexedDB ?bad" "fst (getDB ?bad) = Inr ()" "idbTxFails ?bad" "bcPosted ?bad = []"
    by (simp_all add: idb_context_def flat_context_def hasIndexedDB_def getDB_def Let_def)
  have k: "getProp ''id'' (OrderItem ?ord) = Some (str ''lq1x_a1b2c3'')"
    by (simp add: new_order_def)
  have pb: "fst (storage_put ?bad orders (OrderItem ?ord)) = Inl TransactionFailed"
    using b by (simp add: storage_put_def idbPut_eq os_put_def k)
  have m: "\<not> hasIndexedDB ?mute" "isBrowser ?mute" "bcThrows ?mute" "bcPosted ?mute = []"
    by (simp_all add: flat_context_def hasIndexedDB_def)
  have pm: "fst (storage_put ?mute orders (OrderItem ?ord)) = Inr ()"
    using m by (simp add: storage_put_def Let_def)
  have fc: "bcPosted flat_context = []" "bcSupported flat_context" "\<not> bcThrows flat_context"
    by (simp_all add: flat_context_def)
  have ko: "getProp ''id'' (OrderItem order_ana) = Some (str ''lq1x_a1b2c3'')"
    by (simp add: order_ana_def)
  let ?oid = "(str ''lq1x_a1b2c3'')" and ?now = "(str ''2025-01-15T12:00:00.000Z'')"
  have w1: "fst (saveOrder ?bad form_ana ?oid ?now) = Inl TransactionFailed
          \<and> bcPosted (snd (saveOrder ?bad form_ana ?oid ?now)) = bcPosted ?bad"
    using notify_after_write [of ?bad form_ana ?oid ?now] pb by blast
  have w2: "fst (saveOrder ?mute form_ana ?oid ?now) = Inr ?ord
          \<and> snd (saveOrder ?mute form_ana ?oid ?now)
              = (snd (storage_put ?mute orders (OrderItem ?ord)))
                  \<lparr>bcPosted := bcPosted ?mute @
                     (if isBrowser ?mute \<and> bcSupported ?mute \<and> \<not> bcThrows ?mute
                      then [orders_changed (Some ?oid)] else [])\<rparr>"
    using notify_after_write [of ?mute form_ana ?oid ?now] pm by blast
  have w2': "bcPosted (snd (saveOrder ?mute form_ana ?oid ?now)) = []"
    using w2 m by simp
  have w3: "storagePut idb_context orders (OrderItem order_ana) = idbPut idb_context orders (OrderItem order_ana)"
    using notify_after_write [of idb_context _ _ _ "OrderItem order_ana"] by simp
  have w4: "fst (storagePut flat_context orders (OrderItem order_ana)) = Inr ()
          \<and> snd (storagePut flat_context orders (OrderItem order_ana))
              = (snd (storage_put flat_context orders (OrderItem order_ana)))
                  \<lparr>bcPosted := bcPosted flat_context @
                     (if isBrowser flat_context \<and> bcSupported flat_context \<and> \<not> bcThrows flat_context
                      then [orders_changed (getProp ''id'' (OrderItem order_ana))] else [])\<rparr>"
    using notify_after_write [of flat_context _ _ _ "OrderItem order_ana"] by simp
  have w4': "bcPosted (snd (storagePut flat_context orders (OrderItem order_ana)))
           = [orders_changed (Some (str ''lq1x_a1b2c3''))]"
    using w4 fc ko by simp
  show ?thesis
    using pb pm w1 w2 w2' w3 w4 w4' b(4) by simp
qed

section \<open>Migration from the flat to the structured backend\<close>

lemma getDB_snd_again [simp]: "snd (getDB (snd (getDB e))) = snd (getDB e)"
  by (auto simp: getDB_def Let_def hasIndexedDB_def split: option.splits)

lemma engine_getDB [simp]: "engine (snd (getDB e)) = engine e"
  by (simp add: engine_def)

lemma engine_idbStores_update [simp]: "engine (e\<lparr>idbStores := f\<rparr>) = engine e"
  by (simp add: engine_def)

lemma engine_localStorage_update [simp]: "engine (e\<lparr>localStorage := l\<rparr>) = engine e"
  by (auto simp: engine_def hasIndexedDB_def getDB_def Let_def split: option.splits)

lemma engine_removeItem [simp]: "engine (removeItem k e) = engine e"
  by (simp add: removeItem_def)

lemma engine_setItem [simp]: "engine (setItem k raw e) = engine e"
  by (simp add: setItem_def)

lemma removeItem_fields [simp]:
  "idbStores (removeItem k e) = idbStores e"
  "localStorage (removeItem k e) = (localStorage e)(k := None)"
  "hasIndexedDB (removeItem k e) = hasIndexedDB e"
  by (simp_all add: removeItem_def hasIndexedDB_def)

lemma engine_idbGetAll [simp]: "engine (snd (idbGetAll e store)) = engine e"
  by (simp add: idbGetAll_eq split: sum.splits)

lemma engine_idbBulkPut [simp]: "engine (snd (idbBulkPut e store vs)) = engine e"
  by (simp add: idbBulkPut_eq split: sum.splits)

lemma engine_storage_getAll [simp]: "engine (snd (storage_getAll e store)) = engine e"
  by (simp add: storage_getAll_def)

lemma engine_storage_bulkPut [simp]: "engine (snd (storage_bulkPut e store vs)) = engine e"
  by (simp add: storage_bulkPut_def)

lemma engine_migrate [simp]: "engine (snd (migrate e store st)) = engine e"
proof -
  have "engine (snd (case storage_bulkPut e store vs of
                       (Inl err, e') \<Rightarrow> (st, e')
                     | (Inr u, e') \<Rightarrow> (vs, removeItem (lsKeys store) e'))) = engine e" for vs
    using engine_storage_bulkPut [of e store vs]
    by (cases "storage_bulkPut e store vs") (auto split: sum.splits)
  then show ?thesis
    by (simp add: migrate_def split: option.splits parsed.splits)
qed

lemma engine_load_clients [simp]: "engine (snd (load_clients e)) = engine e"
proof -
  obtain r e1 where g: "storage_getAll e clients = (r, e1)"
    by (cases "storage_getAll e clients")
  have e1: "engine e1 = engine e"
    using engine_storage_getAll [of e clients] by (simp add: g)
  show ?thesis
  proof (cases r)
    case (Inl err)
    then show ?thesis by (simp add: load_clients_def g e1)
  next
    case (Inr st)
    obtain st' e2 where m: "migrate e1 clients st = (st', e2)"
      by (cases "migrate e1 clients st")
    have "engine e2 = engine e1"
      using engine_migrate [of e1 clients st] by (simp add: m)
    with Inr show ?thesis by (simp add: load_clients_def g m e1)
  qed
qed

text \<open>What an operation on another kind leaves of the flavors.\<close>

lemma flavors_kept_getAll:
  "idbStores (snd (storage_getAll e store)) = idbStores e"
  "localStorage (snd (storage_getAll e store)) = localStorage e"
  by (simp_all add: storage_getAll_def idbGetAll_eq split: sum.splits)

lemma flavors_kept_bulkPut:
  assumes "store \<noteq> flavors" and "hasIndexedDB e"
  shows "idbStores (snd (storage_bulkPut e store vs)) flavors = idbStores e flavors"
    and "localStorage (snd (storage_bulkPut e store vs)) = localStorage e"
  using assms by (simp_all add: storage_bulkPut_def idbBulkPut_eq split: sum.splits)

lemma flavors_kept_migrate:
  assumes "store \<noteq> flavors"
  shows "idbStores (snd (migrate e store st)) flavors = idbStores e flavors
       \<and> localStorage (snd (migrate e store st)) (lsKeys flavors) = localStorage e (lsKeys flavors)"
proof (cases "hasIndexedDB e")
  case False
  then show ?thesis by (simp add: migrate_def)
next
  case True
  have k: "lsKeys store \<noteq> lsKeys flavors" using assms by (simp add: lsKeys_inj)
  have "idbStores (snd (case storage_bulkPut e store vs of
                       (Inl err, e') \<Rightarrow> (st, e')
                     | (Inr u, e') \<Rightarrow> (vs, removeItem (lsKeys store) e'))) flavors
          = idbStores e flavors
      \<and> localStorage (snd (case storage_bulkPut e store vs of
                       (Inl err, e') \<Rightarrow> (st, e')
                     | (Inr u, e') \<Rightarrow> (vs, removeItem (lsKeys store) e'))) (lsKeys flavors)
          = localStorage e (lsKeys flavors)" for vs
    using flavors_kept_bulkPut [OF assms True, of vs] k
    by (cases "storage_bulkPut e store vs") (auto split: sum.splits)
  then show ?thesis
    using k by (simp add: migrate_def split: option.splits parsed.splits)
qed

lemma flavors_kept_load_clients:
  "idbStores (snd (load_clients e)) flavors = idbStores e flavors
   \<and> localStorage (snd (load_clients e)) (lsKeys flavors) = localStorage e (lsKeys flavors)"
proof -
  obtain r e1 where g: "storage_getAll e clients = (r, e1)"
    by (cases "storage_getAll e clients")
  have e1: "idbStores e1 = idbStores e" "localStorage e1 = localStorage e"
    using flavors_kept_getAll [of e clients] by (simp_all add: g)
  show ?thesis
  proof (cases r)
    case (Inl err)
    then show ?thesis by (simp add: load_clients_def g e1)
  next
    case (Inr st)
    obtain st' e2 where m: "migrate e1 clients st = (st', e2)"
      by (cases "migrate e1 clients st")
    from flavors_kept_migrate [of clients e1 st] m e1 Inr
    show ?thesis by (simp add: load_clients_def g)
  qed
qed

lemma os_insert_fresh:
  "\<forall>x\<in>set xs. getProp p x \<noteq> Some k \<Longrightarrow>
   set (os_insert p k v xs) = insert v (set xs) \<and> length (os_insert p k v xs) = Suc (length xs)"
  by (induction xs) auto

lemma put_each_fresh:
  assumes "\<forall>v\<in>set vs. fits store v"
    and "distinct (map (getProp (keyPath store)) vs)"
    and "\<forall>x\<in>set xs. getProp (keyPath store) x \<notin> getProp (keyPath store) ` set vs"
  shows "set (snd (put_each store vs xs)) = set xs \<union> set vs
       \<and> length (snd (put_each store vs xs)) = length xs + length vs"
  using assms
proof (induction vs arbitrary: xs)
  case Nil
  then show ?case by simp
next
  case (Cons v vs)
  obtain k where k: "getProp (keyPath store) v = Some k"
    using fits_key [of store v] Cons.prems(1) by auto
  let ?xs' = "os_insert (keyPath store) k v xs"
  have fresh: "\<forall>x\<in>set xs. getProp (keyPath store) x \<noteq> Some k"
    using Cons.prems(3) k by force
  note ins = os_insert_fresh [OF fresh, of v]
  have step: "put_each store (v # vs) xs = put_each store vs ?xs'"
    by (simp add: os_put_def k)
  have "\<forall>x\<in>set ?xs'. getProp (keyPath store) x \<notin> getProp (keyPath store) ` set vs"
    using ins Cons.prems(2,3) by auto
  from Cons.IH [OF _ _ this] Cons.prems(1,2)
  have "set (snd (put_each store vs ?xs')) = set ?xs' \<union> set vs
      \<and> length (snd (put_each store vs ?xs')) = length ?xs' + length vs"
    by simp
  then show ?case unfolding step using ins by auto
qed

text \<open>An object store holds its records in strictly ascending key order.\<close>

lemma os_insert_present:
  assumes "sorted_wrt (\<lambda>a b. \<exists>ka kb. getProp p a = Some ka \<and> getProp p b = Some kb \<and> ka < kb) xs"
    and "v \<in> set xs" and "getProp p v = Some k"
  shows "os_insert p k v xs = xs"
  using assms
proof (induction xs)
  case Nil
  then show ?case by simp
next
  case (Cons x xs)
  show ?case
  proof (cases "v = x")
    case True
    with Cons.prems(3) show ?thesis by simp
  next
    case False
    with Cons.prems have v: "v \<in> set xs" by simp
    with Cons.prems(1,3) obtain kx where kx: "getProp p x = Some kx" "kx < k" by auto
    have "os_insert p k v xs = xs"
      using Cons.IH Cons.prems(1,3) v by simp
    with kx show ?thesis by auto
  qed
qed

lemma os_insert_sorted:
  assumes "sorted_wrt (\<lambda>a b. \<exists>ka kb. getProp p a = Some ka \<and> getProp p b = Some kb \<and> ka < kb) xs"
    and "\<forall>x\<in>set xs. \<exists>kx. getProp p x = Some kx"
    and "getProp p v = Some k"
  shows "sorted_wrt (\<lambda>a b. \<exists>ka kb. getProp p a = Some ka \<and> getProp p b = Some kb \<and> ka < kb)
           (os_insert p k v xs)
       \<and> (\<forall>y\<in>set (os_insert p k v xs). y = v \<or> y \<in> set xs)"
  using assms
proof (induction xs)
  case Nil
  then show ?case by simp
next
  case (Cons x xs)
  obtain kx where kx: "getProp p x = Some kx" using Cons.prems(2) by auto
  consider (eq) "kx = k" | (lt) "k < kx" | (gt) "kx < k" by (meson linorder_cases)
  then show ?case
  proof cases
    case eq
    with kx Cons.prems show ?thesis by auto
  next
    case lt
    with kx Cons.prems show ?thesis by (auto; fastforce)
  next
    case gt
    have ih: "sorted_wrt (\<lambda>a b. \<exists>ka kb. getProp p a = Some ka \<and> getProp p b = Some kb \<and> ka < kb)
                (os_insert p k v xs)
            \<and> (\<forall>y\<in>set (os_insert p k v xs). y = v \<or> y \<in> set xs)"
      using Cons.IH Cons.prems by simp
    have "os_insert p k v (x # xs) = x # os_insert p k v xs"
      using kx gt by auto
    with ih kx gt Cons.prems(1,3) show ?thesis by auto
  qed
qed

lemma put_each_sorted:
  assumes "\<forall>v\<in>set vs. fits store v"
    and "sorted_wrt (\<lambda>a b. \<exists>ka kb. getProp (keyPath store) a = Some ka
                              \<and> getProp (keyPath store) b = Some kb \<and> ka < kb) xs"
    and "\<forall>x\<in>set xs. \<exists>kx. getProp (keyPath store) x = Some kx"
  shows "sorted_wrt (\<lambda>a b. \<exists>ka kb. getProp (keyPath store) a = Some ka
                              \<and> getProp (keyPath store) b = Some kb \<and> ka < kb)
           (snd (put_each store vs xs))"
  using assms
proof (induction vs arbitrary: xs)
  case Nil
  then show ?case by simp
next
  case (Cons v vs)
  obtain k where k: "getProp (keyPath store) v = Some k"
    using fits_key [of store v] Cons.prems(1) by auto
  let ?xs' = "os_insert (keyPath store) k v xs"
  note ins = os_insert_sorted [OF Cons.prems(2,3) k]
  have step: "put_each store (v # vs) xs = put_each store vs ?xs'"
    by (simp add: os_put_def k)
  have keys: "\<forall>x\<in>set ?xs'. \<exists>kx. getProp (keyPath store) x = Some kx"
  proof
    fix x assume "x \<in> set ?xs'"
    with ins have "x = v \<or> x \<in> set xs" by blast
    then show "\<exists>kx. getProp (keyPath store) x = Some kx"
      using k Cons.prems(3) by auto
  qed
  have "\<forall>v\<in>set vs. fits store v" using Cons.prems(1) by simp
  from Cons.IH [OF this conjunct1 [OF ins] keys]
  show ?case unfolding step .
qed

lemma put_each_again:
  assumes "\<forall>v\<in>set vs. fits store v"
    and "sorted_wrt (\<lambda>a b. \<exists>ka kb. getProp (keyPath store) a = Some ka
                              \<and> getProp (keyPath store) b = Some kb \<and> ka < kb) xs"
    and "set vs \<subseteq> set xs"
  shows "put_each store vs xs = (None, xs)"
  using assms
proof (induction vs)
  case Nil
  then show ?case by simp
next
  case (Cons v vs)
  obtain k where k: "getProp (keyPath store) v = Some k"
    using fits_key [of store v] Cons.prems(1) by auto
  have v: "v \<in> set xs" using Cons.prems(3) by simp
  have ins: "os_insert (keyPath store) k v xs = xs"
    by (rule os_insert_present [OF Cons.prems(2) v k])
  have step: "put_each store (v # vs) xs = put_each store vs xs"
    by (simp add: os_put_def k ins)
  have "put_each store vs xs = (None, xs)"
    using Cons.prems by (intro Cons.IH) simp_all
  then show ?case unfolding step .
qed

lemma read_nonempty:
  assumes "readFromLocalStorage e store = vs" and "vs \<noteq> []"
  shows "\<exists>raw. localStorage e (lsKeys store) = Some raw \<and> raw \<noteq> []
             \<and> JSON_parse e raw = Some (JArray vs)"
  using assms
  by (auto simp: readFromLocalStorage_def split: if_splits option.splits parsed.splits)

lemma load_flavors_migrates:
  assumes "hasIndexedDB e" and "fst (getDB e) = Inr ()" and "\<not> idbReadFails e" and "\<not> idbTxFails e"
    and "idbStores e flavors = []"
    and "readFromLocalStorage e flavors = vs" and "vs \<noteq> []"
    and "\<forall>v\<in>set vs. fits flavors v"
  shows "load_flavors e
       = (Inr vs, removeItem (lsKeys flavors)
                    ((snd (getDB e))\<lparr>idbStores :=
                       (idbStores e)(flavors := snd (put_each flavors vs []))\<rparr>))"
proof -
  obtain raw where raw: "localStorage e (lsKeys flavors) = Some raw" "raw \<noteq> []"
      "JSON_parse e raw = Some (JArray vs)"
    using read_nonempty [OF assms(6,7)] by blast
  have g: "storage_getAll e flavors = (Inr [], snd (getDB e))"
    using assms(1,2,3,5) by (simp add: storage_getAll_def idbGetAll_eq)
  have b: "storage_bulkPut (snd (getDB e)) flavors vs
         = (Inr (), (snd (getDB e))\<lparr>idbStores :=
                       (idbStores e)(flavors := snd (put_each flavors vs []))\<rparr>)"
    using assms(1,2,4,5) put_each_fits [OF assms(8), of "[]"]
    by (simp add: storage_bulkPut_def idbBulkPut_eq)
  have m: "migrate (snd (getDB e)) flavors []
         = (vs, removeItem (lsKeys flavors)
                    ((snd (getDB e))\<lparr>idbStores :=
                       (idbStores e)(flavors := snd (put_each flavors vs []))\<rparr>))"
    using assms(1,7) raw by (simp add: migrate_def b)
  show ?thesis
    using assms(7) by (simp add: load_flavors_def g m)
qed

lemma load_flavors_present:
  assumes "hasIndexedDB e" and "fst (getDB e) = Inr ()" and "\<not> idbReadFails e"
    and "idbStores e flavors \<noteq> []"
  shows "load_flavors e = (Inr (idbStores e flavors), snd (getDB e))"
proof -
  have g: "storage_getAll e flavors = (Inr (idbStores e flavors), snd (getDB e))"
    using assms(1,2,3) by (simp add: storage_getAll_def idbGetAll_eq)
  have m: "migrate (snd (getDB e)) flavors (idbStores e flavors)
         = (idbStores e flavors, snd (getDB e))"
    using assms(4) by (simp add: migrate_def)
  show ?thesis
    using assms(4) by (simp add: load_flavors_def g m)
qed

lemma init_Inl: "load_flavors e = (Inl err, e1) \<Longrightarrow> snd (init e ig v) = e1"
  unfolding init_def Let_def by (simp only: prod.case sum.case snd_conv)

lemma init_Inr:
  assumes "load_flavors e = (Inr fl, e1)"
  shows "snd (init e ig v) = snd (load_clients e1)"
proof -
  obtain r2 e2 where lc: "load_clients e1 = (r2, e2)" by (cases "load_clients e1")
  show ?thesis
    unfolding init_def Let_def
    by (cases r2) (simp_all only: assms lc prod.case sum.case snd_conv)
qed

lemma init_flavors_state:
  assumes "load_flavors e = (Inr fl, e1)"
  shows "flavors_state (fst (init e False v)) = fl"
proof -
  obtain r2 e2 where lc: "load_clients e1 = (r2, e2)" by (cases "load_clients e1")
  show ?thesis
    unfolding init_def Let_def
    by (cases r2) (simp_all only: assms lc prod.case sum.case fst_conv, simp_all)
qed

lemma engine_getAll:
  assumes "engine a = engine e" and "hasIndexedDB e" and "fst (getDB e) = Inr ()"
    and "\<not> idbReadFails e"
  shows "fst (storage_getAll a store) = Inr (idbStores a store)"
proof -
  from assms have "hasIndexedDB a" "fst (getDB a) = Inr ()" "\<not> idbReadFails a"
    by (simp_all add: engine_def)
  then show ?thesis by (simp add: idb_getAll_obs)
qed

text \<open>
  C4, as amended. In a browser with a working IndexedDB whose flavors store is empty, and
  with N \<ge> 1 flavor records of pairwise distinct names in the flat backend: \<^verbatim>\<open>init\<close>
  leaves exactly these N records in the structured backend, no two with one name, removes
  the flat copy, and shows the N records. Run again, whatever localStorage then holds (the
  old copy too, as after a failed clear), \<^verbatim>\<open>init\<close> leaves the structured backend at the same
  records; and so would a repeated \<^verbatim>\<open>bulkPut\<close> of the N records.
\<close>

theorem migration_copies_once:
  assumes "hasIndexedDB e" and "backend_ok e"
    and "fst (storage_getAll e flavors) = Inr []"
    and "readFromLocalStorage e flavors = vs" and "vs \<noteq> []"
    and "\<forall>v\<in>set vs. fits flavors v"
    and "distinct (map (getKeyValue flavors) vs)"
  shows "\<exists>xs. fst (storage_getAll (snd (init e ig v)) flavors) = Inr xs
         \<and> length xs = length vs \<and> set xs = set vs
         \<and> distinct (map (getKeyValue flavors) xs)
         \<and> localStorage (snd (init e ig v)) (lsKeys flavors) = None
         \<and> readFromLocalStorage (snd (init e ig v)) flavors = []
         \<and> flavors_state (fst (init e False v)) = vs
         \<and> (\<forall>ls ig' v'.
               fst (storage_getAll
                     (snd (init ((snd (init e ig v))\<lparr>localStorage := ls\<rparr>) ig' v')) flavors) = Inr xs)
         \<and> fst (storage_getAll (snd (storage_bulkPut (snd (init e ig v)) flavors vs)) flavors) = Inr xs"
proof -
  have ok: "fst (getDB e) = Inr ()" "\<not> idbReadFails e" "\<not> idbTxFails e"
    using assms(1,2) by (simp_all add: backend_ok_def)
  have empty: "idbStores e flavors = []"
    using assms(3) ok assms(1) by (simp add: idb_getAll_obs)
  let ?xs = "snd (put_each flavors vs [])"
  let ?E1 = "removeItem (lsKeys flavors)
               ((snd (getDB e))\<lparr>idbStores := (idbStores e)(flavors := ?xs)\<rparr>)"
  let ?e1 = "snd (init e ig v)"
  have lf: "load_flavors e = (Inr vs, ?E1)"
    by (rule load_flavors_migrates [OF assms(1) ok empty assms(4,5,6)])
  have e1: "?e1 = snd (load_clients ?E1)"
    by (rule init_Inr [OF lf])
  have eng1: "engine ?e1 = engine e"
    by (simp add: e1)
  have st1: "idbStores ?e1 flavors = ?xs"
    using flavors_kept_load_clients [of ?E1] by (simp add: e1)
  have ls1: "localStorage ?e1 (lsKeys flavors) = None"
    using flavors_kept_load_clients [of ?E1] by (simp add: e1)
  have g1: "fst (storage_getAll ?e1 flavors) = Inr ?xs"
    using engine_getAll [OF eng1 assms(1) ok(1,2), of flavors] st1 by simp
  have dk: "distinct (map (getProp (keyPath flavors)) vs)"
    using assms(7) getKeyValue_keyPath [of flavors]
    by (metis (mono_tags, lifting) map_eq_conv)
  from put_each_fresh [OF assms(6) dk, of "[]"]
  have sx: "set ?xs = set vs" and lx: "length ?xs = length vs" by simp_all
  have "card (set (map (getKeyValue flavors) ?xs)) = length (map (getKeyValue flavors) ?xs)"
    using distinct_card [OF assms(7)] sx lx by simp
  then have dx: "distinct (map (getKeyValue flavors) ?xs)"
    by (rule card_distinct)
  have r1: "readFromLocalStorage ?e1 flavors = []"
    using ls1 by (simp add: readFromLocalStorage_def)
  have fs: "flavors_state (fst (init e False v)) = vs"
    by (rule init_flavors_state [OF lf])
  have ne: "?xs \<noteq> []" using lx assms(5) by auto
  have again: "fst (storage_getAll (snd (init (?e1\<lparr>localStorage := ls\<rparr>) ig' v')) flavors) = Inr ?xs"
    for ls ig' v'
  proof -
    let ?E2 = "?e1\<lparr>localStorage := ls\<rparr>"
    have eng2: "engine ?E2 = engine e" using eng1 by simp
    then have h2: "hasIndexedDB ?E2" "fst (getDB ?E2) = Inr ()" "\<not> idbReadFails ?E2"
      using assms(1) ok by (simp_all add: engine_def)
    have st2: "idbStores ?E2 flavors = ?xs" using st1 by simp
    have lf2: "load_flavors ?E2 = (Inr (idbStores ?E2 flavors), snd (getDB ?E2))"
      using h2 st2 ne by (intro load_flavors_present) simp_all
    have e2: "snd (init ?E2 ig' v') = snd (load_clients (snd (getDB ?E2)))"
      by (rule init_Inr [OF lf2])
    have eng3: "engine (snd (init ?E2 ig' v')) = engine e"
      using eng2 by (simp add: e2)
    have st3: "idbStores (snd (init ?E2 ig' v')) flavors = ?xs"
      using flavors_kept_load_clients [of "snd (getDB ?E2)"] st2 by (simp add: e2)
    show ?thesis
      using engine_getAll [OF eng3 assms(1) ok(1,2), of flavors] st3 by simp
  qed
  have recopy: "fst (storage_getAll (snd (storage_bulkPut ?e1 flavors vs)) flavors) = Inr ?xs"
  proof -
    have h1: "hasIndexedDB ?e1" "fst (getDB ?e1) = Inr ()" "\<not> idbTxFails ?e1"
      using eng1 assms(1) ok by (simp_all add: engine_def)
    have sorted: "sorted_wrt (\<lambda>a b. \<exists>ka kb. getProp (keyPath flavors) a = Some ka
                              \<and> getProp (keyPath flavors) b = Some kb \<and> ka < kb) ?xs"
      by (rule put_each_sorted [OF assms(6)]) simp_all
    have pa: "put_each flavors vs ?xs = (None, ?xs)"
      by (rule put_each_again [OF assms(6) sorted]) (simp add: sx)
    have "idbStores (snd (storage_bulkPut ?e1 flavors vs)) flavors = ?xs"
      using h1 st1 pa by (simp add: storage_bulkPut_def idbBulkPut_eq)
    moreover have "engine (snd (storage_bulkPut ?e1 flavors vs)) = engine e"
      using eng1 by simp
    ultimately show ?thesis
      using engine_getAll [OF _ assms(1) ok(1,2), of "snd (storage_bulkPut ?e1 flavors vs)" flavors]
      by simp
  qed
  show ?thesis
    apply (rule exI [of _ ?xs])
    using g1 lx sx dx ls1 r1 fs again recopy by blast
qed

lemma init_getAll_flavors:
  assumes "hasIndexedDB e" and "fst (getDB e) = Inr ()" and "\<not> idbReadFails e"
    and "load_flavors e = (Inr fl, E1)" and "engine E1 = engine e"
  shows "fst (storage_getAll (snd (init e ig v)) flavors) = Inr (idbStores E1 flavors)"
proof -
  have e1: "snd (init e ig v) = snd (load_clients E1)"
    by (rule init_Inr [OF assms(4)])
  have "engine (snd (init e ig v)) = engine e"
    using assms(5) by (simp add: e1)
  from engine_getAll [OF this assms(1,2,3), of flavors] flavors_kept_load_clients [of E1]
  show ?thesis by (simp add: e1)
qed

lemma load_flavors_seeds:
  assumes "hasIndexedDB e" and "fst (getDB e) = Inr ()" and "\<not> idbReadFails e" and "\<not> idbTxFails e"
    and "idbStores e flavors = []"
    and "localStorage e (lsKeys flavors) = Some raw" and "raw \<noteq> []"
    and "JSON_parse e raw = Some (JArray [])"
  shows "\<exists>E1. load_flavors e = (Inr defaultFlavors, E1) \<and> engine E1 = engine e
            \<and> idbStores E1 flavors = snd (put_each flavors defaultFlavors [])"
proof -
  let ?E0 = "removeItem (lsKeys flavors) (snd (getDB e))"
  have g: "storage_getAll e flavors = (Inr [], snd (getDB e))"
    using assms(1,2,3,5) by (simp add: storage_getAll_def idbGetAll_eq)
  have m: "migrate (snd (getDB e)) flavors [] = ([], ?E0)"
    using assms(1,6,7,8) by (simp add: migrate_def)
  have f: "\<forall>v\<in>set defaultFlavors. fits flavors v"
    by (simp add: defaultFlavors_def)
  have e0: "hasIndexedDB ?E0" "fst (getDB ?E0) = Inr ()" "\<not> idbTxFails ?E0"
    using assms(1,2,4) engine_removeItem [of "lsKeys flavors" "snd (getDB e)"]
    by (simp_all add: engine_def)
  have b: "storage_bulkPut ?E0 flavors defaultFlavors
         = (Inr (), (snd (getDB ?E0))\<lparr>idbStores :=
              (idbStores ?E0)(flavors := snd (put_each flavors defaultFlavors (idbStores ?E0 flavors)))\<rparr>)"
    using e0 put_each_fits [OF f, of "idbStores ?E0 flavors"]
    by (simp add: storage_bulkPut_def idbBulkPut_eq)
  have lf: "load_flavors e = (Inr defaultFlavors, snd (storage_bulkPut ?E0 flavors defaultFlavors))"
    by (simp add: load_flavors_def g m b)
  have "engine (snd (storage_bulkPut ?E0 flavors defaultFlavors)) = engine e"
    by simp
  moreover have "idbStores (snd (storage_bulkPut ?E0 flavors defaultFlavors)) flavors
                   = snd (put_each flavors defaultFlavors [])"
    using assms(5) by (simp add: b)
  ultimately show ?thesis using lf by blast
qed

lemma idb_flat_holding_facts:
  "hasIndexedDB (idb_flat_holding vs)" "backend_ok (idb_flat_holding vs)"
  "idbStores (idb_flat_holding vs) flavors = []"
  "fst (storage_getAll (idb_flat_holding vs) flavors) = Inr []"
  "localStorage (idb_flat_holding vs) (lsKeys flavors) = Some (unary_stringify vs)"
  "readFromLocalStorage (idb_flat_holding vs) flavors = vs"
proof -
  show h: "hasIndexedDB (idb_flat_holding vs)"
    by (simp add: idb_flat_holding_def hasIndexedDB_def idb_context_def flat_context_def)
  show b: "backend_ok (idb_flat_holding vs)"
    by (simp add: backend_ok_def h)
       (simp add: idb_flat_holding_def idb_context_def flat_context_def getDB_def hasIndexedDB_def Let_def)
  show s: "idbStores (idb_flat_holding vs) flavors = []"
    by (simp add: idb_flat_holding_def idb_context_def flat_context_def)
  show "fst (storage_getAll (idb_flat_holding vs) flavors) = Inr []"
    using getAll_ok [OF b, of flavors] h s by (simp add: stored_def)
  show "localStorage (idb_flat_holding vs) (lsKeys flavors) = Some (unary_stringify vs)"
    by (simp add: idb_flat_holding_def lsKeys.simps)
  show "readFromLocalStorage (idb_flat_holding vs) flavors = vs"
    using unary_roundtrip [of vs]
    by (simp add: readFromLocalStorage_def idb_flat_holding_def idb_context_def flat_context_def
          lsKeys.simps)
qed

theorem migration_copies_once_witness:
  "hasIndexedDB (idb_flat_holding [Chocolate50, Morango55])
   \<and> backend_ok (idb_flat_holding [Chocolate50, Morango55])
   \<and> fst (storage_getAll (idb_flat_holding [Chocolate50, Morango55]) flavors) = Inr []
   \<and> readFromLocalStorage (idb_flat_holding [Chocolate50, Morango55]) flavors = [Chocolate50, Morango55]
   \<and> [Chocolate50, Morango55] \<noteq> []
   \<and> fits flavors Chocolate50 \<and> fits flavors Morango55
   \<and> distinct (map (getKeyValue flavors) [Chocolate50, Morango55])
   \<and> (\<exists>xs. fst (storage_getAll (snd (init (idb_flat_holding [Chocolate50, Morango55]) False home0))
                 flavors) = Inr xs
         \<and> length xs = length [Chocolate50, Morango55] \<and> set xs = set [Chocolate50, Morango55]
         \<and> distinct (map (getKeyValue flavors) xs)
         \<and> localStorage (snd (init (idb_flat_holding [Chocolate50, Morango55]) False home0))
              (lsKeys flavors) = None
         \<and> readFromLocalStorage (snd (init (idb_flat_holding [Chocolate50, Morango55]) False home0))
              flavors = []
         \<and> flavors_state (fst (init (idb_flat_holding [Chocolate50, Morango55]) False home0))
              = [Chocolate50, Morango55]
         \<and> (\<forall>ls ig' v'.
               fst (storage_getAll
                     (snd (init ((snd (init (idb_flat_holding [Chocolate50, Morango55]) False home0))
                                   \<lparr>localStorage := ls\<rparr>) ig' v')) flavors) = Inr xs)
         \<and> fst (storage_getAll
                  (snd (storage_bulkPut (snd (init (idb_flat_holding [Chocolate50, Morango55]) False home0))
                          flavors [Chocolate50, Morango55])) flavors) = Inr xs)"
proof -
  let ?e = "idb_flat_holding [Chocolate50, Morango55]"
  have f: "\<forall>v\<in>set [Chocolate50, Morango55]. fits flavors v"
    by (simp add: example_fits)
  have d: "distinct (map (getKeyValue flavors) [Chocolate50, Morango55])"
    by (simp add: example_keys)
  from migration_copies_once [OF idb_flat_holding_facts(1,2,4,6) _ f d, of False home0]
  have "\<exists>xs. fst (storage_getAll (snd (init ?e False home0)) flavors) = Inr xs
         \<and> length xs = length [Chocolate50, Morango55] \<and> set xs = set [Chocolate50, Morango55]
         \<and> distinct (map (getKeyValue flavors) xs)
         \<and> localStorage (snd (init ?e False home0)) (lsKeys flavors) = None
         \<and> readFromLocalStorage (snd (init ?e False home0)) flavors = []
         \<and> flavors_state (fst (init ?e False home0)) = [Chocolate50, Morango55]
         \<and> (\<forall>ls ig' v'.
               fst (storage_getAll
                     (snd (init ((snd (init ?e False home0))\<lparr>localStorage := ls\<rparr>) ig' v')) flavors) = Inr xs)
         \<and> fst (storage_getAll
                  (snd (storage_bulkPut (snd (init ?e False home0)) flavors [Chocolate50, Morango55]))
                  flavors) = Inr xs"
    by simp
  then show ?thesis
    using idb_flat_holding_facts [of "[Chocolate50, Morango55]"] d
    by (simp add: example_fits)
qed

text \<open>
  C4 as stated fails for N = 0 and for records sharing a name. With an empty array in the
  flat backend, \<^verbatim>\<open>init\<close> installs the four default flavors; with two records named
  \<^verbatim>\<open>Chocolate\<close> in the flat backend, the structured backend ends with one.
\<close>

theorem migration_counterexample:
  "fst (storage_getAll (idb_flat_holding []) flavors) = Inr []
   \<and> readFromLocalStorage (idb_flat_holding []) flavors = []
   \<and> fst (storage_getAll (snd (init (idb_flat_holding []) False home0)) flavors)
       = Inr [Baunilha45, Chocolate50, Limao40, Morango55]
   \<and> fst (storage_getAll (idb_flat_holding [Chocolate50, Chocolate60]) flavors) = Inr []
   \<and> readFromLocalStorage (idb_flat_holding [Chocolate50, Chocolate60]) flavors
       = [Chocolate50, Chocolate60]
   \<and> fst (storage_getAll (snd (init (idb_flat_holding [Chocolate50, Chocolate60]) False home0)) flavors)
       = Inr [Chocolate60]"
proof -
  let ?a = "idb_flat_holding []" and ?b = "idb_flat_holding [Chocolate50, Chocolate60]"
  have oka: "fst (getDB ?a) = Inr ()" "\<not> idbReadFails ?a" "\<not> idbTxFails ?a"
    using idb_flat_holding_facts(1,2) [of "[]"] by (simp_all add: backend_ok_def)
  have okb: "fst (getDB ?b) = Inr ()" "\<not> idbReadFails ?b" "\<not> idbTxFails ?b"
    using idb_flat_holding_facts(1,2) [of "[Chocolate50, Chocolate60]"] by (simp_all add: backend_ok_def)
  have pa: "JSON_parse ?a (unary_stringify []) = Some (JArray [])" "unary_stringify [] \<noteq> []"
    using unary_roundtrip [of "[]"]
    by (simp_all add: idb_flat_holding_def idb_context_def flat_context_def)
  obtain E1 where E1: "load_flavors ?a = (Inr defaultFlavors, E1)" "engine E1 = engine ?a"
      "idbStores E1 flavors = snd (put_each flavors defaultFlavors [])"
    using load_flavors_seeds [OF idb_flat_holding_facts(1) oka idb_flat_holding_facts(3,5) pa(2,1)]
    by blast
  have da: "snd (put_each flavors defaultFlavors []) = [Baunilha45, Chocolate50, Limao40, Morango55]"
    by (simp add: defaultFlavors_def os_put_def Baunilha45_def Chocolate50_def Limao40_def Morango55_def)
  have ga: "fst (storage_getAll (snd (init ?a False home0)) flavors)
          = Inr [Baunilha45, Chocolate50, Limao40, Morango55]"
    using init_getAll_flavors [OF idb_flat_holding_facts(1) oka(1,2) E1(1,2)] E1(3) da by simp
  have fb: "\<forall>v\<in>set [Chocolate50, Chocolate60]. fits flavors v"
    by (simp add: example_fits)
  note lb = load_flavors_migrates [OF idb_flat_holding_facts(1) okb idb_flat_holding_facts(3,6) _ fb]
  have db: "snd (put_each flavors [Chocolate50, Chocolate60] []) = [Chocolate60]"
    by (simp add: os_put_def Chocolate50_def Chocolate60_def)
  have gb: "fst (storage_getAll (snd (init ?b False home0)) flavors) = Inr [Chocolate60]"
    using init_getAll_flavors [OF idb_flat_holding_facts(1) okb(1,2) lb] db
          idb_flat_holding_facts(3) [of "[Chocolate50, Chocolate60]"]
    by simp
  show ?thesis
    using ga gb idb_flat_holding_facts(4,6) by simp
qed

section \<open>Put and delete on the flat backend, by the records' keys\<close>

lemma fits_record_key: "fits store x \<Longrightarrow> getKeyValue store x = Some (record_key x)"
  by (cases store; cases x) (simp_all add: getKeyValue_def)

lemma flat_holding_facts:
  "isBrowser (flat_holding vs)" "\<not> hasIndexedDB (flat_holding vs)" "json_roundtrip (flat_holding vs)"
  "storage_getAll (flat_holding vs) flavors = (Inr vs, flat_holding vs)"
proof -
  show b: "isBrowser (flat_holding vs)"
    by (simp add: flat_holding_def flat_context_def)
  show h: "\<not> hasIndexedDB (flat_holding vs)"
    by (simp add: flat_holding_def flat_context_def hasIndexedDB_def)
  show "json_roundtrip (flat_holding vs)"
    by (simp add: json_roundtrip_def flat_holding_def flat_context_def unary_roundtrip)
  have "readFromLocalStorage (flat_holding vs) flavors = vs"
    using unary_roundtrip [of vs]
    by (simp add: readFromLocalStorage_def flat_holding_def flat_context_def lsKeys.simps)
  with h show "storage_getAll (flat_holding vs) flavors = (Inr vs, flat_holding vs)"
    by (simp add: flat_getAll)
qed

lemma example_record_keys:
  "record_key Chocolate50 = str ''Chocolate''" "record_key Chocolate60 = str ''Chocolate''"
  "record_key Chocolate70 = str ''Chocolate''" "record_key chocolate99 = str ''chocolate''"
  "record_key Morango55 = str ''Morango''" "record_key Morango60 = str ''Morango''"
  "record_key Baunilha45 = str ''Baunilha''"
  by (simp_all add: Chocolate50_def Chocolate60_def Chocolate70_def chocolate99_def
        Morango55_def Morango60_def Baunilha45_def)

lemma example_fits_more: "fits flavors Morango60" "fits flavors Baunilha45"
  by (simp_all add: Morango60_def Baunilha45_def)

subsection \<open>The flat backend's put keeps the other records\<close>

text \<open>
  C10. On the flat backend, \<^verbatim>\<open>put(kind, R)\<close> succeeds and changes the collection of the
  kind in one place only: the records whose key differs from R's are the same, in the same
  order, and R either takes the place of the first record with its key or, where no record
  has its key, is added at the end. The collections of the other kinds read as before. For
  a collection of records of the kind this is said once more with the key of the data
  model (name, id, id): every record with another key stays the same at its position.
\<close>

theorem flat_put_frame:
  assumes "isBrowser e" and "\<not> hasIndexedDB e" and "json_roundtrip e"
  shows "\<exists>e' cur new.
           storage_getAll e store = (Inr cur, e)
         \<and> storage_put e store R = (Inr (), e')
         \<and> storage_getAll e' store = (Inr new, e')
         \<and> others store (getKeyValue store R) new = others store (getKeyValue store R) cur
         \<and> ((\<exists>i<length cur. getKeyValue store (cur ! i) = getKeyValue store R
                \<and> (\<forall>j<i. getKeyValue store (cur ! j) \<noteq> getKeyValue store R)
                \<and> new = cur[i := R])
            \<or> ((\<forall>x\<in>set cur. getKeyValue store x \<noteq> getKeyValue store R) \<and> new = cur @ [R]))
         \<and> (\<forall>s. s \<noteq> store \<longrightarrow> storage_getAll e' s = (Inr (readFromLocalStorage e s), e'))
         \<and> ((\<forall>x\<in>set cur. fits store x) \<and> fits store R \<longrightarrow>
               (\<forall>i<length cur. record_key (cur ! i) \<noteq> record_key R
                     \<longrightarrow> i < length new \<and> new ! i = cur ! i)
             \<and> ((\<exists>i<length cur. record_key (cur ! i) = record_key R
                    \<and> (\<forall>j<i. record_key (cur ! j) \<noteq> record_key R)
                    \<and> new = cur[i := R])
                \<or> ((\<forall>x\<in>set cur. record_key x \<noteq> record_key R) \<and> new = cur @ [R])))"
proof -
  let ?cur = "readFromLocalStorage e store"
  let ?new = "put_current store R ?cur"
  let ?e' = "setItem (lsKeys store) (JSON_stringify e ?new) e"
  have put: "storage_put e store R = (Inr (), ?e')"
    using assms by (simp add: flat_put)
  have rd: "readFromLocalStorage ?e' store = ?new"
    using assms by (simp add: read_setItem_same)
  have g0: "storage_getAll e store = (Inr ?cur, e)"
    using assms by (simp add: flat_getAll)
  have g1: "storage_getAll ?e' store = (Inr ?new, ?e')"
    using assms rd by (simp add: flat_getAll)
  have fr: "others store (getKeyValue store R) ?new = others store (getKeyValue store R) ?cur"
    by (simp add: others_def put_current_frame)
  note sh = put_current_shape [of ?cur store R]
  have ot: "\<forall>s. s \<noteq> store \<longrightarrow> storage_getAll ?e' s = (Inr (readFromLocalStorage e s), ?e')"
    using assms by (simp add: flat_getAll read_setItem_other)
  have ty: "(\<forall>x\<in>set ?cur. fits store x) \<and> fits store R \<longrightarrow>
               (\<forall>i<length ?cur. record_key (?cur ! i) \<noteq> record_key R
                     \<longrightarrow> i < length ?new \<and> ?new ! i = ?cur ! i)
             \<and> ((\<exists>i<length ?cur. record_key (?cur ! i) = record_key R
                    \<and> (\<forall>j<i. record_key (?cur ! j) \<noteq> record_key R)
                    \<and> ?new = ?cur[i := R])
                \<or> ((\<forall>x\<in>set ?cur. record_key x \<noteq> record_key R) \<and> ?new = ?cur @ [R]))"
  proof
    assume t: "(\<forall>x\<in>set ?cur. fits store x) \<and> fits store R"
    then have kR: "getKeyValue store R = Some (record_key R)"
      by (simp add: fits_record_key)
    have kx: "getKeyValue store x = Some (record_key x)" if "x \<in> set ?cur" for x
      using t that by (simp add: fits_record_key)
    have ki: "getKeyValue store (?cur ! i) = Some (record_key (?cur ! i))" if "i < length ?cur" for i
      using kx [of "?cur ! i"] that by simp
    from sh have b: "(\<exists>i<length ?cur. record_key (?cur ! i) = record_key R
                    \<and> (\<forall>j<i. record_key (?cur ! j) \<noteq> record_key R)
                    \<and> ?new = ?cur[i := R])
                \<or> ((\<forall>x\<in>set ?cur. record_key x \<noteq> record_key R) \<and> ?new = ?cur @ [R])"
    proof
      assume "\<exists>i<length ?cur. getKeyValue store (?cur ! i) = getKeyValue store R
                \<and> (\<forall>j<i. getKeyValue store (?cur ! j) \<noteq> getKeyValue store R)
                \<and> ?new = ?cur[i := R]"
      then obtain i where i: "i < length ?cur" "getKeyValue store (?cur ! i) = getKeyValue store R"
          "\<forall>j<i. getKeyValue store (?cur ! j) \<noteq> getKeyValue store R" "?new = ?cur[i := R]"
        by blast
      have "record_key (?cur ! i) = record_key R"
        using i(1,2) ki kR by simp
      moreover have "\<forall>j<i. record_key (?cur ! j) \<noteq> record_key R"
      proof (intro allI impI)
        fix j assume "j < i"
        then have "j < length ?cur" "getKeyValue store (?cur ! j) \<noteq> getKeyValue store R"
          using i(1,3) by auto
        then show "record_key (?cur ! j) \<noteq> record_key R"
          using ki [of j] kR by auto
      qed
      ultimately show ?thesis using i(1,4) by blast
    next
      assume a: "(\<forall>x\<in>set ?cur. getKeyValue store x \<noteq> getKeyValue store R) \<and> ?new = ?cur @ [R]"
      have "\<forall>x\<in>set ?cur. record_key x \<noteq> record_key R"
      proof
        fix x assume x: "x \<in> set ?cur"
        with a have "getKeyValue store x \<noteq> getKeyValue store R" by blast
        then show "record_key x \<noteq> record_key R" using kx [OF x] kR by auto
      qed
      with a show ?thesis by blast
    qed
    have a: "\<forall>i<length ?cur. record_key (?cur ! i) \<noteq> record_key R
                     \<longrightarrow> i < length ?new \<and> ?new ! i = ?cur ! i"
    proof (intro allI impI)
      fix i assume i: "i < length ?cur" "record_key (?cur ! i) \<noteq> record_key R"
      from b show "i < length ?new \<and> ?new ! i = ?cur ! i"
      proof
        assume "\<exists>i<length ?cur. record_key (?cur ! i) = record_key R
                    \<and> (\<forall>j<i. record_key (?cur ! j) \<noteq> record_key R)
                    \<and> ?new = ?cur[i := R]"
        then obtain m where m: "m < length ?cur" "record_key (?cur ! m) = record_key R"
            "?new = ?cur[m := R]" by blast
        with i have "m \<noteq> i" by auto
        then show ?thesis using i(1) by (simp add: m(3))
      next
        assume "(\<forall>x\<in>set ?cur. record_key x \<noteq> record_key R) \<and> ?new = ?cur @ [R]"
        then show ?thesis using i(1) by (simp add: nth_append)
      qed
    qed
    from a b show "(\<forall>i<length ?cur. record_key (?cur ! i) \<noteq> record_key R
                     \<longrightarrow> i < length ?new \<and> ?new ! i = ?cur ! i)
             \<and> ((\<exists>i<length ?cur. record_key (?cur ! i) = record_key R
                    \<and> (\<forall>j<i. record_key (?cur ! j) \<noteq> record_key R)
                    \<and> ?new = ?cur[i := R])
                \<or> ((\<forall>x\<in>set ?cur. record_key x \<noteq> record_key R) \<and> ?new = ?cur @ [R]))"
      by blast
  qed
  show ?thesis
    by (intro exI conjI) (rule g0 put g1 fr sh ot ty)+
qed

lemma put_from_frame:
  assumes ex: "\<exists>e' cur new.
           storage_getAll (flat_holding vs) flavors = (Inr cur, flat_holding vs)
         \<and> storage_put (flat_holding vs) flavors R = (Inr (), e')
         \<and> storage_getAll e' flavors = (Inr new, e')
         \<and> A cur new
         \<and> B cur new
         \<and> (\<forall>s. s \<noteq> flavors \<longrightarrow>
               storage_getAll e' s = (Inr (readFromLocalStorage (flat_holding vs) s), e'))
         \<and> ((\<forall>x\<in>set cur. fits flavors x) \<and> fits flavors R \<longrightarrow>
               C cur new
             \<and> ((\<exists>i<length cur. record_key (cur ! i) = record_key R
                    \<and> (\<forall>j<i. record_key (cur ! j) \<noteq> record_key R)
                    \<and> new = cur[i := R])
                \<or> ((\<forall>x\<in>set cur. record_key x \<noteq> record_key R) \<and> new = cur @ [R])))"
    and ty: "\<forall>x\<in>set vs. fits flavors x" "fits flavors R"
  shows "\<exists>e' new. storage_put (flat_holding vs) flavors R = (Inr (), e')
           \<and> storage_getAll e' flavors = (Inr new, e')
           \<and> storage_getAll e' clients = (Inr [], e')
           \<and> ((\<exists>i<length vs. record_key (vs ! i) = record_key R
                    \<and> (\<forall>j<i. record_key (vs ! j) \<noteq> record_key R)
                    \<and> new = vs[i := R])
                \<or> ((\<forall>x\<in>set vs. record_key x \<noteq> record_key R) \<and> new = vs @ [R]))"
proof -
  from ex obtain e' cur new where
    f: "storage_getAll (flat_holding vs) flavors = (Inr cur, flat_holding vs)"
       "storage_put (flat_holding vs) flavors R = (Inr (), e')"
       "storage_getAll e' flavors = (Inr new, e')"
       "\<forall>s. s \<noteq> flavors \<longrightarrow>
               storage_getAll e' s = (Inr (readFromLocalStorage (flat_holding vs) s), e')"
       "(\<forall>x\<in>set cur. fits flavors x) \<and> fits flavors R \<longrightarrow>
               C cur new
             \<and> ((\<exists>i<length cur. record_key (cur ! i) = record_key R
                    \<and> (\<forall>j<i. record_key (cur ! j) \<noteq> record_key R)
                    \<and> new = cur[i := R])
                \<or> ((\<forall>x\<in>set cur. record_key x \<noteq> record_key R) \<and> new = cur @ [R]))"
    by blast
  have cur: "cur = vs" using f(1) by (simp add: flat_holding_facts)
  have cl: "readFromLocalStorage (flat_holding vs) clients = []"
    by (simp add: readFromLocalStorage_def flat_holding_def flat_context_def lsKeys.simps)
  have "storage_getAll e' clients = (Inr [], e')"
    using f(4) cl by simp
  with f(2,3,5) ty show ?thesis unfolding cur by blast
qed

theorem flat_put_frame_witness:
  "isBrowser (flat_holding [Chocolate50, Morango55, Baunilha45])
   \<and> \<not> hasIndexedDB (flat_holding [Chocolate50, Morango55, Baunilha45])
   \<and> json_roundtrip (flat_holding [Chocolate50, Morango55, Baunilha45])
   \<and> fits flavors Chocolate50 \<and> fits flavors Morango55 \<and> fits flavors Baunilha45
   \<and> fits flavors Morango60 \<and> fits flavors chocolate99
   \<and> storage_getAll (flat_holding [Chocolate50, Morango55, Baunilha45]) flavors
        = (Inr [Chocolate50, Morango55, Baunilha45], flat_holding [Chocolate50, Morango55, Baunilha45])
   \<and> (\<exists>e'. storage_put (flat_holding [Chocolate50, Morango55, Baunilha45]) flavors Morango60 = (Inr (), e')
           \<and> storage_getAll e' flavors = (Inr [Chocolate50, Morango60, Baunilha45], e')
           \<and> storage_getAll e' clients = (Inr [], e'))
   \<and> (\<exists>e'. storage_put (flat_holding [Chocolate50, Morango55, Baunilha45]) flavors chocolate99 = (Inr (), e')
           \<and> storage_getAll e' flavors = (Inr [Chocolate50, Morango55, Baunilha45, chocolate99], e')
           \<and> storage_getAll e' clients = (Inr [], e'))
   \<and> (isBrowser (flat_holding [Chocolate50, Morango55, Chocolate60])
       \<and> \<not> hasIndexedDB (flat_holding [Chocolate50, Morango55, Chocolate60])
       \<and> json_roundtrip (flat_holding [Chocolate50, Morango55, Chocolate60])
       \<and> fits flavors Chocolate60 \<and> fits flavors Chocolate70)
   \<and> (\<exists>e'. storage_put (flat_holding [Chocolate50, Morango55, Chocolate60]) flavors Chocolate70 = (Inr (), e')
           \<and> storage_getAll e' flavors = (Inr [Chocolate70, Morango55, Chocolate60], e')
           \<and> storage_getAll e' clients = (Inr [], e'))"
proof -
  let ?vs = "[Chocolate50, Morango55, Baunilha45]" and ?ws = "[Chocolate50, Morango55, Chocolate60]"
  have tv: "\<forall>x\<in>set ?vs. fits flavors x" and tw: "\<forall>x\<in>set ?ws. fits flavors x"
    by (simp_all add: example_fits example_fits_more)
  from put_from_frame [OF flat_put_frame [OF flat_holding_facts(1,2,3), of ?vs flavors Morango60] tv]
  have a: "\<exists>e'. storage_put (flat_holding ?vs) flavors Morango60 = (Inr (), e')
           \<and> storage_getAll e' flavors = (Inr [Chocolate50, Morango60, Baunilha45], e')
           \<and> storage_getAll e' clients = (Inr [], e')"
    by (auto simp: example_fits_more example_record_keys less_Suc_eq)
  from put_from_frame [OF flat_put_frame [OF flat_holding_facts(1,2,3), of ?vs flavors chocolate99] tv]
  have b: "\<exists>e'. storage_put (flat_holding ?vs) flavors chocolate99 = (Inr (), e')
           \<and> storage_getAll e' flavors = (Inr [Chocolate50, Morango55, Baunilha45, chocolate99], e')
           \<and> storage_getAll e' clients = (Inr [], e')"
    by (auto simp: example_fits example_record_keys less_Suc_eq)
  from put_from_frame [OF flat_put_frame [OF flat_holding_facts(1,2,3), of ?ws flavors Chocolate70] tw]
  have c: "\<exists>e'. storage_put (flat_holding ?ws) flavors Chocolate70 = (Inr (), e')
           \<and> storage_getAll e' flavors = (Inr [Chocolate70, Morango55, Chocolate60], e')
           \<and> storage_getAll e' clients = (Inr [], e')"
    by (auto simp: example_fits example_record_keys less_Suc_eq)
  show ?thesis
    using a b c by (simp add: flat_holding_facts example_fits example_fits_more)
qed

subsection \<open>Deleting twice on the flat backend\<close>

lemma delete_current_typed:
  "\<forall>x\<in>set cur. fits store x \<Longrightarrow>
   delete_current store k cur = filter (\<lambda>x. record_key x \<noteq> k) cur"
  unfolding delete_current_def by (rule filter_cong) (auto simp: fits_record_key)

lemma delete_current_no_key:
  "x \<in> set (delete_current store k cur) \<Longrightarrow> fits store x \<Longrightarrow> record_key x \<noteq> k"
  by (auto simp: delete_current_def fits_record_key)

text \<open>
  C2. On the flat backend \<^verbatim>\<open>delete(kind, key)\<close> succeeds whether or not a record has the
  key, and so does a second \<^verbatim>\<open>delete\<close> right after it; after each of the two \<^verbatim>\<open>getAll\<close>
  gives the same collection, in which no record has the key; where none had it before, the
  collection reads as before; and for a collection of records of the kind, what is left
  is exactly the records whose key in the data model (name, id, id) is another one, in
  their order.
\<close>

theorem flat_delete_idempotent:
  assumes "\<not> hasIndexedDB e" and "json_roundtrip e"
  shows "\<exists>e1 e2 cur xs.
           storage_getAll e store = (Inr cur, e)
         \<and> storage_delete e store k = (Inr (), e1)
         \<and> storage_delete e1 store k = (Inr (), e2)
         \<and> storage_getAll e1 store = (Inr xs, e1)
         \<and> storage_getAll e2 store = (Inr xs, e2)
         \<and> count_key store (Some k) xs = 0
         \<and> (count_key store (Some k) cur = 0 \<longrightarrow> xs = cur)
         \<and> (\<forall>x\<in>set xs. fits store x \<longrightarrow> record_key x \<noteq> k)
         \<and> ((\<forall>x\<in>set cur. fits store x) \<longrightarrow> xs = filter (\<lambda>x. record_key x \<noteq> k) cur)"
proof -
  let ?cur = "readFromLocalStorage e store"
  let ?xs = "delete_current store k ?cur"
  have g0: "storage_getAll e store = (Inr ?cur, e)"
    using assms by (simp add: flat_getAll)
  have c: "count_key store (Some k) ?xs = 0" by simp
  have a: "count_key store (Some k) ?cur = 0 \<longrightarrow> ?xs = ?cur"
    by (simp add: delete_current_absent)
  have n: "\<forall>x\<in>set ?xs. fits store x \<longrightarrow> record_key x \<noteq> k"
    using delete_current_no_key by blast
  have t: "(\<forall>x\<in>set ?cur. fits store x) \<longrightarrow> ?xs = filter (\<lambda>x. record_key x \<noteq> k) ?cur"
    using delete_current_typed by blast
  show ?thesis
  proof (cases "isBrowser e")
    case False
    then have nb: "?cur = []" "?xs = []"
      by (simp_all add: read_not_browser delete_current_def)
    have d: "storage_delete e store k = (Inr (), e)"
      using assms False by (simp add: storage_delete_def)
    have g: "storage_getAll e store = (Inr ?xs, e)"
      using g0 nb by simp
    show ?thesis
      by (intro exI conjI) (rule g0 d d g g c a n t)+
  next
    case True
    let ?e1 = "setItem (lsKeys store) (JSON_stringify e ?xs) e"
    let ?e2 = "setItem (lsKeys store) (JSON_stringify e ?xs) ?e1"
    have r1: "readFromLocalStorage ?e1 store = ?xs"
      using True assms by (simp add: read_setItem_same)
    have d1: "storage_delete e store k = (Inr (), ?e1)"
      using True assms by (simp add: flat_delete)
    have d2: "storage_delete ?e1 store k = (Inr (), ?e2)"
      using True assms r1 by (simp add: flat_delete)
    have r2: "readFromLocalStorage ?e2 store = ?xs"
      using True assms read_setItem_same [of ?e1 store ?xs] by simp
    have g1: "storage_getAll ?e1 store = (Inr ?xs, ?e1)"
      using assms r1 by (simp add: flat_getAll)
    have g2: "storage_getAll ?e2 store = (Inr ?xs, ?e2)"
      using assms r2 by (simp add: flat_getAll)
    show ?thesis
      by (intro exI conjI) (rule g0 d1 d2 g1 g2 c a n t)+
  qed
qed

lemma delete_from_idempotent:
  assumes ex: "\<exists>e1 e2 cur xs.
           storage_getAll (flat_holding vs) flavors = (Inr cur, flat_holding vs)
         \<and> storage_delete (flat_holding vs) flavors k = (Inr (), e1)
         \<and> storage_delete e1 flavors k = (Inr (), e2)
         \<and> storage_getAll e1 flavors = (Inr xs, e1)
         \<and> storage_getAll e2 flavors = (Inr xs, e2)
         \<and> A cur xs
         \<and> B cur xs
         \<and> C cur xs
         \<and> ((\<forall>x\<in>set cur. fits flavors x) \<longrightarrow> xs = filter (\<lambda>x. record_key x \<noteq> k) cur)"
    and ty: "\<forall>x\<in>set vs. fits flavors x"
  shows "\<exists>e1 e2. storage_delete (flat_holding vs) flavors k = (Inr (), e1)
           \<and> storage_delete e1 flavors k = (Inr (), e2)
           \<and> storage_getAll e1 flavors = (Inr (filter (\<lambda>x. record_key x \<noteq> k) vs), e1)
           \<and> storage_getAll e2 flavors = (Inr (filter (\<lambda>x. record_key x \<noteq> k) vs), e2)"
proof -
  from ex obtain e1 e2 cur xs where
    f: "storage_getAll (flat_holding vs) flavors = (Inr cur, flat_holding vs)"
       "storage_delete (flat_holding vs) flavors k = (Inr (), e1)"
       "storage_delete e1 flavors k = (Inr (), e2)"
       "storage_getAll e1 flavors = (Inr xs, e1)"
       "storage_getAll e2 flavors = (Inr xs, e2)"
       "(\<forall>x\<in>set cur. fits flavors x) \<longrightarrow> xs = filter (\<lambda>x. record_key x \<noteq> k) cur"
    by blast
  have cur: "cur = vs" using f(1) by (simp add: flat_holding_facts)
  from f(6) ty have "xs = filter (\<lambda>x. record_key x \<noteq> k) vs"
    unfolding cur by blast
  with f(2,3,4,5) show ?thesis by blast
qed

theorem flat_delete_idempotent_witness:
  "\<not> hasIndexedDB (flat_holding [Chocolate50, Morango55, Baunilha45])
   \<and> json_roundtrip (flat_holding [Chocolate50, Morango55, Baunilha45])
   \<and> fits flavors Chocolate50 \<and> fits flavors Morango55 \<and> fits flavors Baunilha45
   \<and> storage_getAll (flat_holding [Chocolate50, Morango55, Baunilha45]) flavors
        = (Inr [Chocolate50, Morango55, Baunilha45], flat_holding [Chocolate50, Morango55, Baunilha45])
   \<and> (\<exists>e1 e2. storage_delete (flat_holding [Chocolate50, Morango55, Baunilha45]) flavors (str ''Morango'')
                  = (Inr (), e1)
           \<and> storage_delete e1 flavors (str ''Morango'') = (Inr (), e2)
           \<and> storage_getAll e1 flavors = (Inr [Chocolate50, Baunilha45], e1)
           \<and> storage_getAll e2 flavors = (Inr [Chocolate50, Baunilha45], e2))
   \<and> (\<exists>e1 e2. storage_delete (flat_holding [Chocolate50, Morango55, Baunilha45]) flavors (str ''Pistache'')
                  = (Inr (), e1)
           \<and> storage_delete e1 flavors (str ''Pistache'') = (Inr (), e2)
           \<and> storage_getAll e1 flavors = (Inr [Chocolate50, Morango55, Baunilha45], e1)
           \<and> storage_getAll e2 flavors = (Inr [Chocolate50, Morango55, Baunilha45], e2))
   \<and> (\<not> hasIndexedDB (flat_holding [Chocolate50, Morango55, Chocolate60])
       \<and> json_roundtrip (flat_holding [Chocolate50, Morango55, Chocolate60])
       \<and> fits flavors Chocolate60)
   \<and> (\<exists>e1 e2. storage_delete (flat_holding [Chocolate50, Morango55, Chocolate60]) flavors (str ''Chocolate'')
                  = (Inr (), e1)
           \<and> storage_delete e1 flavors (str ''Chocolate'') = (Inr (), e2)
           \<and> storage_getAll e1 flavors = (Inr [Morango55], e1)
           \<and> storage_getAll e2 flavors = (Inr [Morango55], e2))"
proof -
  let ?vs = "[Chocolate50, Morango55, Baunilha45]" and ?ws = "[Chocolate50, Morango55, Chocolate60]"
  have tv: "\<forall>x\<in>set ?vs. fits flavors x" and tw: "\<forall>x\<in>set ?ws. fits flavors x"
    by (simp_all add: example_fits example_fits_more)
  from delete_from_idempotent
         [OF flat_delete_idempotent [OF flat_holding_facts(2,3), of ?vs flavors "str ''Morango''"] tv]
  have a: "\<exists>e1 e2. storage_delete (flat_holding ?vs) flavors (str ''Morango'') = (Inr (), e1)
           \<and> storage_delete e1 flavors (str ''Morango'') = (Inr (), e2)
           \<and> storage_getAll e1 flavors = (Inr [Chocolate50, Baunilha45], e1)
           \<and> storage_getAll e2 flavors = (Inr [Chocolate50, Baunilha45], e2)"
    by (simp add: example_record_keys)
  from delete_from_idempotent
         [OF flat_delete_idempotent [OF flat_holding_facts(2,3), of ?vs flavors "str ''Pistache''"] tv]
  have b: "\<exists>e1 e2. storage_delete (flat_holding ?vs) flavors (str ''Pistache'') = (Inr (), e1)
           \<and> storage_delete e1 flavors (str ''Pistache'') = (Inr (), e2)
           \<and> storage_getAll e1 flavors = (Inr [Chocolate50, Morango55, Baunilha45], e1)
           \<and> storage_getAll e2 flavors = (Inr [Chocolate50, Morango55, Baunilha45], e2)"
    by (simp add: example_record_keys)
  from delete_from_idempotent
         [OF flat_delete_idempotent [OF flat_holding_facts(2,3), of ?ws flavors "str ''Chocolate''"] tw]
  have c: "\<exists>e1 e2. storage_delete (flat_holding ?ws) flavors (str ''Chocolate'') = (Inr (), e1)
           \<and> storage_delete e1 flavors (str ''Chocolate'') = (Inr (), e2)
           \<and> storage_getAll e1 flavors = (Inr [Morango55], e1)
           \<and> storage_getAll e2 flavors = (Inr [Morango55], e2)"
    by (simp add: example_record_keys)
  show ?thesis
    using a b c by (simp add: flat_holding_facts example_fits example_fits_more)
qed

end
